theory Spec2Isabelle
  imports Complex_Main
begin

section \<open>Values of the host language\<close>

text \<open>
  Node ids are the strings made by \<open>generateUUID\<close>. A JavaScript value held in a property
  or a data array is one of the cases below; \<open>undefined\<close> is the absence of a value
  (\<open>None\<close>). A number of the host is a double: a finite one is held by the real it denotes
  (both zeros by 0), and there are NaN and the two infinities; the only operation on
  numbers in what follows is the test for truth. \<open>JParam\<close> is a control parameter object
  of the audio host (it is identified by the primitive that has it and its property
  name), \<open>JObj\<close> a reference to any other object.
\<close>

type_synonym uuid = string

datatype number = Finite real | NaN | Infinity bool

datatype jsval = JNull | JBool bool | JNum number | JStr string | JParam | JObj nat

fun truthy :: "jsval \<Rightarrow> bool" where
  "truthy JNull = False"
| "truthy (JBool b) = b"
| "truthy (JNum r) = (r \<noteq> Finite 0 \<and> r \<noteq> NaN)"
| "truthy (JStr s) = (s \<noteq> [])"
| "truthy JParam = True"
| "truthy (JObj _) = True"

section \<open>String and array helpers\<close>

text \<open>\<open>str.split(",")\<close>: the empty string gives one empty piece.\<close>

fun split_comma :: "string \<Rightarrow> string list" where
  "split_comma [] = [[]]"
| "split_comma (c # cs) =
     (if c = CHR '','' then [] # split_comma cs
      else (case split_comma cs of
              [] \<Rightarrow> [[c]]
            | w # ws \<Rightarrow> (c # w) # ws))"

text \<open>\<open>getSelectorType\<close>: a leading dot is a class, a leading hash an id, else a type.\<close>

fun getSelectorType :: "string \<Rightarrow> string" where
  "getSelectorType [] = ''type''"
| "getSelectorType (c # cs) =
     (if c = CHR ''.'' then ''class'' else if c = CHR ''#'' then ''id'' else ''type'')"

text \<open>
  \<open>arrayUnique\<close>: two nested index loops over a copy of the array; the inner loop splices
  out every later element equal to \<open>a[i]\<close> and stays at the same \<open>j\<close> after a splice.
\<close>

definition splice1 :: "nat \<Rightarrow> 'a list \<Rightarrow> 'a list" where
  "splice1 j a = take j a @ drop (Suc j) a"

function arrayUnique_inner :: "'a list \<Rightarrow> nat \<Rightarrow> nat \<Rightarrow> 'a list" where
  "arrayUnique_inner a i j =
     (if j < length a
      then (if a ! i = a ! j then arrayUnique_inner (splice1 j a) i j
            else arrayUnique_inner a i (Suc j))
      else a)"
  by pat_completeness auto
termination
  by (relation "measure (\<lambda>(a, i, j). length a - j)") (auto simp: splice1_def)

declare arrayUnique_inner.simps [simp del]

lemma length_arrayUnique_inner: "length (arrayUnique_inner a i j) \<le> length a"
proof (induction a i j rule: arrayUnique_inner.induct)
  case (1 a i j)
  show ?case
  proof (cases "j < length a")
    case False
    then show ?thesis by (subst arrayUnique_inner.simps) simp
  next
    case True
    have "length (splice1 j a) \<le> length a"
      by (simp add: splice1_def)
    with 1 True show ?thesis
      by (subst arrayUnique_inner.simps) (auto intro: order_trans)
  qed
qed

function arrayUnique_outer :: "'a list \<Rightarrow> nat \<Rightarrow> 'a list" where
  "arrayUnique_outer a i =
     (if i < length a then arrayUnique_outer (arrayUnique_inner a i (Suc i)) (Suc i) else a)"
  by pat_completeness auto
termination
proof (relation "measure (\<lambda>(a, i). length a - i)")
  show "wf (measure (\<lambda>(a :: 'a list, i). length a - i))"
    by simp
next
  fix a :: "'a list" and i :: nat
  assume "i < length a"
  moreover have "length (arrayUnique_inner a i (Suc i)) \<le> length a"
    by (rule length_arrayUnique_inner)
  ultimately show "((arrayUnique_inner a i (Suc i), Suc i), (a, i))
      \<in> measure (\<lambda>(a, i). length a - i)"
    by simp
qed

declare arrayUnique_outer.simps [simp del]

definition arrayUnique :: "'a list \<Rightarrow> 'a list" where
  "arrayUnique array = arrayUnique_outer array 0"

text \<open>
  \<open>setter\<close>: push onto the array stored under a key, or start a new array. Nothing is
  written for an empty key.
\<close>

definition setter :: "(string \<rightharpoonup> 'v list) \<Rightarrow> string \<Rightarrow> 'v \<Rightarrow> (string \<rightharpoonup> 'v list)" where
  "setter m key v =
     (if key \<noteq> []
      then (case m key of
              Some arr \<Rightarrow> m(key \<mapsto> arr @ [v])
            | None \<Rightarrow> m(key \<mapsto> [v]))
      else m)"

section \<open>Selector lookup\<close>

text \<open>
  The lookup index is a plain object of the host, so reading a key that is not stored
  gives what the object inherits. As long as its prototype is the one of plain objects
  these are the built-in members of that prototype, and the prototype itself under the
  key \<open>__proto__\<close>. A write to the key \<open>__proto__\<close> does not store a key but replaces the
  prototype by the array written, which is then read under that key like a stored
  array: the map holds it there, and the index then inherits the length, the elements
  (under their decimal indices) and the built-in members of the array. The names are
  those of the standard library of ECMAScript 2015 with the legacy accessor helpers.
  A built-in member is held by its name: under one prototype different names are
  different objects.
\<close>

datatype item = Id uuid | Num nat | Member string

datatype lkval = Arr "uuid list" | Single item

definition object_members :: "string list" where
  "object_members =
     [''constructor'', ''toString'', ''toLocaleString'', ''valueOf'', ''hasOwnProperty'',
      ''isPrototypeOf'', ''propertyIsEnumerable'', ''__defineGetter__'', ''__defineSetter__'',
      ''__lookupGetter__'', ''__lookupSetter__'']"

definition array_members :: "string list" where
  "array_members =
     [''concat'', ''copyWithin'', ''entries'', ''every'', ''fill'', ''filter'', ''find'',
      ''findIndex'', ''forEach'', ''indexOf'', ''join'', ''keys'', ''lastIndexOf'', ''map'',
      ''pop'', ''push'', ''reduce'', ''reduceRight'', ''reverse'', ''shift'', ''slice'',
      ''some'', ''sort'', ''splice'', ''unshift'', ''values'']"

text \<open>The array index a key denotes: a decimal numeral without a leading zero.\<close>

definition digit_of :: "char \<Rightarrow> nat option" where
  "digit_of c =
     map_of [(CHR ''0'', 0), (CHR ''1'', 1), (CHR ''2'', 2), (CHR ''3'', 3), (CHR ''4'', 4),
             (CHR ''5'', 5), (CHR ''6'', 6), (CHR ''7'', 7), (CHR ''8'', 8), (CHR ''9'', 9)] c"

fun digits_val :: "string \<Rightarrow> nat \<Rightarrow> nat option" where
  "digits_val [] acc = Some acc"
| "digits_val (c # cs) acc =
     (case digit_of c of Some d \<Rightarrow> digits_val cs (10 * acc + d) | None \<Rightarrow> None)"

definition index_of :: "string \<Rightarrow> nat option" where
  "index_of k =
     (case k of
        [] \<Rightarrow> None
      | c # cs \<Rightarrow> if c = CHR ''0'' \<and> cs \<noteq> [] then None else digits_val k 0)"

text \<open>\<open>_nodeLookup[key]\<close>; \<open>None\<close> is \<open>undefined\<close>.\<close>

definition lookup_get :: "(string \<rightharpoonup> uuid list) \<Rightarrow> string \<Rightarrow> lkval option" where
  "lookup_get nodeLookup key =
     (case nodeLookup key of
        Some arr \<Rightarrow> Some (Arr arr)
      | None \<Rightarrow>
          (case nodeLookup ''__proto__'' of
             None \<Rightarrow>
               (if key = ''__proto__'' \<or> key \<in> set object_members
                then Some (Single (Member key)) else None)
           | Some proto \<Rightarrow>
               (if key = ''length'' then Some (Single (Num (length proto)))
                else (case index_of key of
                        Some i \<Rightarrow>
                          (if i < length proto then Some (Single (Id (proto ! i))) else None)
                      | None \<Rightarrow>
                          (if key \<in> set array_members \<or> key \<in> set object_members
                           then Some (Single (Member key)) else None)))))"

definition item_truthy :: "item \<Rightarrow> bool" where
  "item_truthy x = (case x of Id u \<Rightarrow> u \<noteq> [] | Num n \<Rightarrow> n \<noteq> 0 | Member _ \<Rightarrow> True)"

text \<open>
  \<open>getNodesWithSelector\<close>: the body of the \<open>forEach\<close> over the comma-separated clauses is
  \<open>selector_step\<close>; \<open>nodes\<close> is the accumulated result. \<open>concat\<close> appends the elements of an
  array and appends any other value as one element.
\<close>

definition selector_step :: "(string \<rightharpoonup> uuid list) \<Rightarrow> item list \<Rightarrow> string \<Rightarrow> item list" where
  "selector_step nodeLookup nodes currSelector =
     (if currSelector \<noteq> []
      then (case lookup_get nodeLookup currSelector of
              Some (Arr tmp) \<Rightarrow>
                arrayUnique (nodes @
                  (if getSelectorType currSelector = ''id'' \<and> 1 < length tmp
                   then [Id (tmp ! 0)] else map Id tmp))
            | Some (Single x) \<Rightarrow>
                (if item_truthy x then arrayUnique (nodes @ [x]) else nodes)
            | None \<Rightarrow> nodes)
      else nodes)"

definition getNodesWithSelector :: "(string \<rightharpoonup> uuid list) \<Rightarrow> string \<Rightarrow> item list" where
  "getNodesWithSelector nodeLookup selector =
     foldl (selector_step nodeLookup) [] (split_comma selector)"

text \<open>
  What one clause contributes before deduplication, and the position of the first
  occurrence of an element in a list; both are used to state the order of the result.
\<close>

definition clause_matches :: "(string \<rightharpoonup> uuid list) \<Rightarrow> string \<Rightarrow> item list" where
  "clause_matches nodeLookup currSelector =
     (if currSelector \<noteq> []
      then (case lookup_get nodeLookup currSelector of
              Some (Arr tmp) \<Rightarrow>
                (if getSelectorType currSelector = ''id'' \<and> 1 < length tmp
                 then [Id (tmp ! 0)] else map Id tmp)
            | Some (Single x) \<Rightarrow> (if item_truthy x then [x] else [])
            | None \<Rightarrow> [])
      else [])"


fun dedup_first :: "'a list \<Rightarrow> 'a list" where
  "dedup_first [] = []"
| "dedup_first (x # xs) = x # dedup_first (filter (\<lambda>y. y \<noteq> x) xs)"

section \<open>Sequencer\<close>

text \<open>
  The module variables of the sequencer and a listener binding. A callback is an opaque
  function of the caller: it is held by an identifier.
\<close>

record listener =
  l_callback :: nat
  l_data :: "jsval list"
  l_loopStepSize :: int
  l_loopIndex :: int
  l_selection :: "item list"
  l_selector :: string

record loop_state =
  isLoopRunning :: bool
  ignoreGrid :: bool
  loopStepSize :: int
  loopInterval :: number
  loopCB :: "nat option"
  loopData :: "jsval list"
  loopIndex :: int
  loopListeners :: "listener list"
  loopTimeToNextStep :: number

text \<open>
  \<open>cracked.bind\<close> and \<open>cracked.unbind\<close>. The live selection and the active selector text
  are module variables of the graph; they are passed in. A callback that is not a
  function is \<open>None\<close>.
\<close>

definition cracked_bind ::
    "string \<Rightarrow> nat option \<Rightarrow> jsval list \<Rightarrow> item list \<Rightarrow> string \<Rightarrow> loop_state \<Rightarrow> loop_state" where
  "cracked_bind eventType fn d selectedNodes currentSelector s =
     (case fn of
        Some f \<Rightarrow>
          (if eventType = ''step''
           then s\<lparr>loopListeners := loopListeners s @
                   [\<lparr>l_callback = f, l_data = d, l_loopStepSize = int (length d),
                     l_loopIndex = - 1, l_selection = selectedNodes,
                     l_selector = currentSelector\<rparr>]\<rparr>
           else s)
      | None \<Rightarrow> s)"

definition cracked_unbind :: "string \<Rightarrow> string \<Rightarrow> loop_state \<Rightarrow> loop_state" where
  "cracked_unbind eventType currentSelector s =
     (if eventType = ''step''
      then s\<lparr>loopListeners :=
              foldl (\<lambda>tmp el. if currentSelector \<noteq> l_selector el then tmp @ [el] else tmp)
                [] (loopListeners s)\<rparr>
      else s)"

section \<open>Nodes and module state of the graph\<close>

text \<open>
  An exception of the program is a value: \<open>TypeError\<close> for a method call on \<open>null\<close> or
  \<open>undefined\<close> and for a native connect to something that is neither a node nor a control
  parameter, \<open>RangeError\<close> for a call stack that runs out.
\<close>

datatype error = TypeError | RangeError

definition bind_err :: "error + 'a \<Rightarrow> ('a \<Rightarrow> error + 'b) \<Rightarrow> error + 'b" where
  "bind_err m f = (case m of Inl e \<Rightarrow> Inl e | Inr x \<Rightarrow> f x)"

text \<open>
  A parameter-mapping table sends a parameter name to a path. An entry of the form
  \<open>{path, fn}\<close> is held by its path. The keys of a settings object that the core reads
  are \<open>id\<close>, \<open>class\<close>, \<open>modulates\<close> and \<open>mapping\<close>; the first three are strings when
  present. \<open>None\<close> is an absent key.
\<close>

type_synonym pmap = "string \<rightharpoonup> string"

record settings =
  s_id :: "string option"
  s_class :: "string option"
  s_modulates :: "string option"
  s_mapping :: "pmap option"

record creation_params =
  cp_method :: "string option"
  cp_settings :: settings
  cp_mapping :: "pmap option"

text \<open>
  A primitive of the audio host is an object with an identity and a property table; the
  \<open>uuid\<close> tag and an attached \<open>buffer\<close> are properties. The underlying handle of a node is
  one primitive or, for a macro, the array of its members. A member is a primitive or the
  array of a nested macro; that array is shared with the nested macro's wrapper, so it is
  held as a reference: the uuid the array is tagged with. The destination of the audio
  context is one primitive that every wrapper made for it shares, and each of them writes
  its tag on it: it is held as a reference too (\<open>Dest\<close>, \<open>MDest\<close>) and its identity and
  property table are part of the state.
\<close>

record prim =
  hid :: nat
  props :: "string \<rightharpoonup> jsval"

datatype member = MPrim prim | MDest | MArr uuid

datatype native = Leaf prim | Dest | Macro "member list"

text \<open>
  The private variables of an \<open>AudioNode\<close> wrapper. A reference to another wrapper
  (\<open>prevNode\<close>, the elements of \<open>nextNode\<close>) is the key of that wrapper in the node store.
  A wrapper is stored under its own uuid (\<open>setNode\<close>) and the store never drops one. The
  store is read with ids of the form \<open>generateUUID\<close> gives, which name nothing the store
  object inherits.
\<close>

record node =
  uuid :: uuid
  macroContainerUUID :: "uuid option"
  macroNameSpace :: string
  parameters :: creation_params
  paramMapping :: "pmap option"
  nodeType :: string
  nativeNode :: native
  prevNode :: "uuid option"
  isPlaying :: bool
  nextNode :: "uuid list"

text \<open>
  What a connection resolves to on one side: a member handle, or the value found under a
  property name of a member. A native connect that the host accepts is recorded as a wire
  from the identity of the source primitive to the target: a primitive, or the control
  parameter that a primitive has under a property name.
\<close>

datatype endpoint = ENode member | EProp member string jsval

datatype sink = SinkNode nat | SinkParam nat string

text \<open>
  The module variables of the graph, and three of the host: the destination of the audio
  context, the wires made so far and the identity the next new primitive gets.
\<close>

record state =
  nodeStore :: "uuid \<rightharpoonup> node"
  nodeLookup :: "string \<rightharpoonup> uuid list"
  previousNode :: "uuid option"
  selectedNodes :: "item list"
  currentSelector :: string
  currentMacro :: "uuid list"
  destination :: prim
  connections :: "(nat \<times> sink) list"
  nextHandle :: nat

definition truthy_str :: "string option \<Rightarrow> bool" where
  "truthy_str x = (case x of Some v \<Rightarrow> v \<noteq> [] | None \<Rightarrow> False)"

definition getNodeWithUUID :: "state \<Rightarrow> uuid \<Rightarrow> node option" where
  "getNodeWithUUID s u = (if u \<noteq> [] then nodeStore s u else None)"

text \<open>\<open>getNodeWithUUID(x.uuid)\<close> for a property value \<open>x.uuid\<close> that may be undefined.\<close>

definition getNodeWithTag :: "state \<Rightarrow> jsval option \<Rightarrow> node option" where
  "getNodeWithTag s v = (case v of Some (JStr u) \<Rightarrow> getNodeWithUUID s u | _ \<Rightarrow> None)"

text \<open>
  Reading a property of a member, and the identity of a member that is a primitive. The
  array of a nested macro carries its \<open>uuid\<close> tag; parameter names are taken not to be
  names of array built-ins.
\<close>

fun member_prop :: "state \<Rightarrow> member \<Rightarrow> string \<Rightarrow> jsval option" where
  "member_prop s (MPrim p) name = props p name"
| "member_prop s MDest name = props (destination s) name"
| "member_prop s (MArr u) name = (if name = ''uuid'' then Some (JStr u) else None)"

fun member_hid :: "state \<Rightarrow> member \<Rightarrow> nat option" where
  "member_hid s (MPrim p) = Some (hid p)"
| "member_hid s MDest = Some (hid (destination s))"
| "member_hid s (MArr u) = None"

definition isMacro :: "node \<Rightarrow> bool" where
  "isMacro n = (case nativeNode n of Macro _ \<Rightarrow> True | _ \<Rightarrow> False)"

definition getID :: "node \<Rightarrow> string" where
  "getID n = (case s_id (cp_settings (parameters n)) of
                Some v \<Rightarrow> (if v \<noteq> [] then v else [])
              | None \<Rightarrow> [])"

definition areSiblings :: "node \<Rightarrow> node \<Rightarrow> bool" where
  "areSiblings this n = (macroContainerUUID n = macroContainerUUID this)"

text \<open>
  The \<open>modulates\<close> setting of the macro that owns a node: undefined when the node has no
  owner; reading it through an owner id that is not in the store raises.
\<close>

definition container_modulates :: "state \<Rightarrow> node \<Rightarrow> error + string option" where
  "container_modulates s this =
     (case macroContainerUUID this of
        Some c \<Rightarrow>
          (if c \<noteq> []
           then (case getNodeWithUUID s c of
                   None \<Rightarrow> Inl TypeError
                 | Some m \<Rightarrow> Inr (s_modulates (cp_settings (parameters m))))
           else Inr None)
      | None \<Rightarrow> Inr None)"

definition isModulator :: "state \<Rightarrow> node \<Rightarrow> error + bool" where
  "isModulator s this =
     bind_err (container_modulates s this) (\<lambda>c.
       if truthy_str c then Inr True
       else Inr (truthy_str (s_modulates (cp_settings (parameters this)))))"

definition isModulatorType :: "state \<Rightarrow> node \<Rightarrow> error + string" where
  "isModulatorType s this =
     bind_err (isModulator s this) (\<lambda>m.
       if m
       then bind_err (container_modulates s this) (\<lambda>c.
              if truthy_str c then Inr (case c of Some v \<Rightarrow> v | None \<Rightarrow> [])
              else Inr (case s_modulates (cp_settings (parameters this)) of
                          Some v \<Rightarrow> v | None \<Rightarrow> []))
       else Inr [])"

section \<open>Connection resolver\<close>

text \<open>\<open>resolveParamMapping(name, map).path\<close>.\<close>

definition resolveParamMapping :: "string \<Rightarrow> pmap option \<Rightarrow> string" where
  "resolveParamMapping name m =
     (case m of
        None \<Rightarrow> name
      | Some mapping \<Rightarrow>
          (case mapping name of
             Some result \<Rightarrow> (if result \<noteq> [] then result else name)
           | None \<Rightarrow> name))"

text \<open>\<open>path.replace(".value", "")\<close>: the first occurrence of the text is removed.\<close>

fun replace_value :: "string \<Rightarrow> string" where
  "replace_value [] = []"
| "replace_value (c # cs) =
     (if take 6 (c # cs) = ''.value'' then drop 6 (c # cs) else c # replace_value cs)"

definition getNodeToConnect :: "node \<Rightarrow> string \<Rightarrow> member option" where
  "getNodeToConnect n whichNode =
     (case nativeNode n of
        Leaf p \<Rightarrow> Some (MPrim p)
      | Dest \<Rightarrow> Some MDest
      | Macro rawNode \<Rightarrow>
          (if rawNode = [] then None
           else if whichNode = ''from'' then Some (rawNode ! (length rawNode - 1))
           else Some (rawNode ! 0)))"

text \<open>
  The loop of \<open>getNodeToConnectToModulator\<close> over the members of a macro: the first member
  that has the resolved property, under that member's own mapping table, gives the
  result; \<open>whole\<close>, the array itself, is the result when no member has it.
\<close>

fun modulator_members :: "state \<Rightarrow> string \<Rightarrow> endpoint \<Rightarrow> member list \<Rightarrow> error + endpoint option" where
  "modulator_members s property whole [] = Inr (Some whole)"
| "modulator_members s property whole (m # ms) =
     (case getNodeWithTag s (member_prop s m ''uuid'') of
        None \<Rightarrow> Inl TypeError
      | Some w \<Rightarrow>
          (let resolvedProperty =
                 replace_value (resolveParamMapping property (paramMapping w))
           in (case member_prop s m resolvedProperty of
                 Some v \<Rightarrow> Inr (Some (EProp m resolvedProperty v))
               | None \<Rightarrow> modulator_members s property whole ms)))"

definition getNodeToConnectToModulator ::
    "state \<Rightarrow> node \<Rightarrow> string \<Rightarrow> error + endpoint option" where
  "getNodeToConnectToModulator s n property =
     (case nativeNode n of
        Macro rawNode \<Rightarrow> modulator_members s property (ENode (MArr (uuid n))) rawNode
      | Leaf p \<Rightarrow>
          (let resolvedProperty =
                 replace_value (resolveParamMapping property (paramMapping n))
           in (case props p resolvedProperty of
                 Some v \<Rightarrow>
                   Inr (if truthy v then Some (EProp (MPrim p) resolvedProperty v) else None)
               | None \<Rightarrow> Inr None))
      | Dest \<Rightarrow>
          (let resolvedProperty =
                 replace_value (resolveParamMapping property (paramMapping n))
           in (case props (destination s) resolvedProperty of
                 Some v \<Rightarrow>
                   Inr (if truthy v then Some (EProp MDest resolvedProperty v) else None)
               | None \<Rightarrow> Inr None)))"

definition getNodesToConnect ::
    "state \<Rightarrow> node \<Rightarrow> node \<Rightarrow> error + (member option \<times> endpoint option)" where
  "getNodesToConnect s fromNode toNode =
     bind_err (isModulator s fromNode) (\<lambda>m.
       if m \<and> \<not> areSiblings fromNode toNode
       then bind_err (isModulatorType s fromNode) (\<lambda>property.
            bind_err (getNodeToConnectToModulator s toNode property) (\<lambda>t.
              Inr (getNodeToConnect fromNode ''from'', t)))
       else Inr (getNodeToConnect fromNode ''from'',
                 map_option ENode (getNodeToConnect toNode ''to'')))"

definition endpoint_truthy :: "endpoint \<Rightarrow> bool" where
  "endpoint_truthy e = (case e of ENode _ \<Rightarrow> True | EProp _ _ v \<Rightarrow> truthy v)"

text \<open>
  The host's \<open>connect\<close>, called on the primitive with identity \<open>h\<close>: it accepts a primitive
  or a control parameter and raises on any other argument. Inputs and outputs are not
  counted: every primitive takes and gives a connection.
\<close>

definition native_connect :: "nat \<Rightarrow> endpoint \<Rightarrow> state \<Rightarrow> error + state" where
  "native_connect h e s =
     (case e of
        ENode m \<Rightarrow>
          (case member_hid s m of
             Some q \<Rightarrow> Inr (s\<lparr>connections := connections s @ [(h, SinkNode q)]\<rparr>)
           | None \<Rightarrow> Inl TypeError)
      | EProp m name v \<Rightarrow>
          (case member_hid s m of
             Some q \<Rightarrow>
               (if v = JParam
                then Inr (s\<lparr>connections := connections s @ [(h, SinkParam q name)]\<rparr>)
                else Inl TypeError)
           | None \<Rightarrow> Inl TypeError))"

text \<open>
  The tail shared by \<open>connect\<close> and \<open>connectPrevious\<close>: the native connect is made when
  the source side is a primitive (it has a \<open>connect\<close> function) and the target side is
  truthy; otherwise the failure is only logged.
\<close>

definition connect_nodes :: "state \<Rightarrow> node \<Rightarrow> node \<Rightarrow> error + state" where
  "connect_nodes s fromNode toNode =
     bind_err (getNodesToConnect s fromNode toNode) (\<lambda>nodes.
       (case fst nodes of
          Some m \<Rightarrow>
            (case member_hid s m of
               Some h \<Rightarrow>
                 (case snd nodes of
                    Some e \<Rightarrow> (if endpoint_truthy e then native_connect h e s else Inr s)
                  | None \<Rightarrow> Inr s)
             | None \<Rightarrow> Inr s)
        | None \<Rightarrow> Inr s))"

definition connect :: "state \<Rightarrow> uuid \<Rightarrow> uuid \<Rightarrow> error + state" where
  "connect s this nodeToConnect =
     (case nodeStore s this of
        None \<Rightarrow> Inl TypeError
      | Some t \<Rightarrow>
          (case nodeStore s nodeToConnect of
             None \<Rightarrow> Inr s
           | Some n \<Rightarrow> if uuid t \<noteq> uuid n then connect_nodes s t n else Inr s))"


text \<open>
  \<open>pushNextNode\<close> records the new node on the wrapper of the primitive the connection
  starts from; for a macro it calls itself on the wrapper of the last member. The first
  argument bounds the depth of these calls.
\<close>

fun pushNextNode :: "nat \<Rightarrow> state \<Rightarrow> uuid \<Rightarrow> uuid \<Rightarrow> error + state" where
  "pushNextNode 0 s this n = Inl RangeError"
| "pushNextNode (Suc k) s this n =
     (case nodeStore s this of
        None \<Rightarrow> Inl TypeError
      | Some t \<Rightarrow>
          (case nodeStore s n of
             None \<Rightarrow> Inr s
           | Some nd \<Rightarrow>
               bind_err (getNodesToConnect s t nd) (\<lambda>nodes.
                 (case fst nodes of
                    None \<Rightarrow> Inl TypeError
                  | Some m \<Rightarrow>
                      (case getNodeWithTag s (member_prop s m ''uuid'') of
                         None \<Rightarrow> Inl TypeError
                       | Some fromNode \<Rightarrow>
                           if uuid fromNode \<noteq> uuid t
                           then pushNextNode k s (uuid fromNode) n
                           else Inr (s\<lparr>nodeStore := (nodeStore s)
                                        (this \<mapsto> t\<lparr>nextNode := nextNode t @ [n]\<rparr>)\<rparr>))))))"

definition setPrevNode :: "state \<Rightarrow> uuid \<Rightarrow> uuid \<Rightarrow> error + state" where
  "setPrevNode s this n =
     (case nodeStore s this of
        None \<Rightarrow> Inl TypeError
      | Some t \<Rightarrow> Inr (s\<lparr>nodeStore := (nodeStore s)(this \<mapsto> t\<lparr>prevNode := Some n\<rparr>)\<rparr>))"

section \<open>Macro recorder and registry\<close>

definition recordingMacro :: "state \<Rightarrow> bool" where
  "recordingMacro s = (currentMacro s \<noteq> [])"

definition getCurrentMacro :: "state \<Rightarrow> uuid option" where
  "getCurrentMacro s =
     (if recordingMacro s then Some (currentMacro s ! (length (currentMacro s) - 1)) else None)"

text \<open>
  \<open>getCurrentMacroNamespace\<close>: the type of every macro on the stack, bottom first, each
  followed by a space.
\<close>

fun macro_types :: "state \<Rightarrow> uuid list \<Rightarrow> error + string" where
  "macro_types s [] = Inr []"
| "macro_types s (m # ms) =
     (case nodeStore s m of
        None \<Rightarrow> Inl TypeError
      | Some mn \<Rightarrow>
          (case macro_types s ms of
             Inl e \<Rightarrow> Inl e
           | Inr r \<Rightarrow> Inr (nodeType mn @ '' '' @ r)))"

definition getCurrentMacroNamespace :: "state \<Rightarrow> error + string" where
  "getCurrentMacroNamespace s =
     (if recordingMacro s then macro_types s (currentMacro s) else Inr [])"

definition member_of :: "node \<Rightarrow> member" where
  "member_of n =
     (case nativeNode n of Leaf p \<Rightarrow> MPrim p | Dest \<Rightarrow> MDest | Macro _ \<Rightarrow> MArr (uuid n))"

text \<open>
  \<open>updateMacro\<close>: while a macro is recording, the new node gets the id of the macro on top
  of the stack as its owner and its handle is pushed onto that macro's member array.
\<close>

definition updateMacro :: "state \<Rightarrow> node \<Rightarrow> error + (node \<times> state)" where
  "updateMacro s n =
     (case getCurrentMacro s of
        None \<Rightarrow> Inr (n, s)
      | Some topm \<Rightarrow>
          (case nodeStore s topm of
             None \<Rightarrow> Inl TypeError
           | Some t \<Rightarrow>
               (let n' = (if uuid t \<noteq> [] then n\<lparr>macroContainerUUID := Some (uuid t)\<rparr> else n)
                in (case nativeNode t of
                      Macro ms \<Rightarrow>
                        Inr (n', s\<lparr>nodeStore := (nodeStore s)
                               (topm \<mapsto> t\<lparr>nativeNode := Macro (ms @ [member_of n'])\<rparr>)\<rparr>)
                    | _ \<Rightarrow> Inl TypeError))))"

definition setNode :: "state \<Rightarrow> node \<Rightarrow> state" where
  "setNode s n = s\<lparr>nodeStore := (nodeStore s)(uuid n \<mapsto> n)\<rparr>"

text \<open>
  \<open>setNodeLookup\<close>: the id key, the class key (written once per comma-separated token,
  each time under the whole class text), the wildcard key and the type key; all but the
  wildcard carry the namespace of the macros that are recording.
\<close>

definition setNodeLookup :: "state \<Rightarrow> node \<Rightarrow> error + state" where
  "setNodeLookup s n =
     bind_err (getCurrentMacroNamespace s) (\<lambda>prefix.
       (let params = cp_settings (parameters n);
            l1 = (case s_id params of
                    Some i \<Rightarrow> setter (nodeLookup s) (prefix @ ''#'' @ i) (uuid n)
                  | None \<Rightarrow> nodeLookup s);
            l2 = (case s_class params of
                    Some c \<Rightarrow>
                      foldl (\<lambda>l tok. setter l (prefix @ ''.'' @ c) (uuid n)) l1 (split_comma c)
                  | None \<Rightarrow> l1);
            l3 = setter l2 ''*'' (uuid n);
            l4 = setter l3 (prefix @ nodeType n) (uuid n)
        in Inr (s\<lparr>nodeLookup := l4\<rparr>)))"

definition saveNode :: "state \<Rightarrow> node \<Rightarrow> error + state" where
  "saveNode s n =
     bind_err (updateMacro s n) (\<lambda>r. setNodeLookup (setNode (snd r) (fst r)) (fst r))"

section \<open>Node creation\<close>

definition override :: "'a option \<Rightarrow> 'a option \<Rightarrow> 'a option" where
  "override src tgt = (case src of Some v \<Rightarrow> Some v | None \<Rightarrow> tgt)"

text \<open>\<open>mergeObjects(source, target)\<close> on settings: every key of the source is copied.\<close>

definition mergeObjects :: "settings \<Rightarrow> settings \<Rightarrow> settings" where
  "mergeObjects source target =
     \<lparr>s_id = override (s_id source) (s_id target),
      s_class = override (s_class source) (s_class target),
      s_modulates = override (s_modulates source) (s_modulates target),
      s_mapping = override (s_mapping source) (s_mapping target)\<rparr>"

text \<open>
  \<open>audioNodeFactory\<close>. The audio context is made when the module is loaded, so it is
  always present. \<open>host\<close> stands for it: for creation parameters whose
  method the context has it gives the property table of the new primitive, with the
  settings applied, and \<open>None\<close> for a method it does not have. With a method of the context
  a new primitive is made; with a method the context lacks the handle is the shared
  destination; without a method it is the empty member array of a macro.
\<close>

definition audioNodeFactory ::
    "(creation_params \<Rightarrow> (string \<rightharpoonup> jsval) option) \<Rightarrow> creation_params \<Rightarrow> state \<Rightarrow> native \<times> state" where
  "audioNodeFactory host cp s =
     (if truthy_str (cp_method cp)
      then (case host cp of
              Some ps \<Rightarrow>
                (Leaf \<lparr>hid = nextHandle s, props = ps\<rparr>, s\<lparr>nextHandle := Suc (nextHandle s)\<rparr>)
            | None \<Rightarrow> (Dest, s))
      else (Macro [], s))"

text \<open>
  \<open>nativeNode.uuid = uuid\<close>; the tag of an array is the reference it is held by, and the
  tag of the destination is written on the shared primitive.
\<close>

definition tag_native :: "uuid \<Rightarrow> native \<Rightarrow> state \<Rightarrow> native \<times> state" where
  "tag_native u n s =
     (case n of
        Leaf p \<Rightarrow> (Leaf (p\<lparr>props := (props p)(''uuid'' \<mapsto> JStr u)\<rparr>), s)
      | Dest \<Rightarrow>
          (Dest, s\<lparr>destination :=
                     (destination s)\<lparr>props := (props (destination s))(''uuid'' \<mapsto> JStr u)\<rparr>\<rparr>)
      | Macro ms \<Rightarrow> (Macro ms, s))"

text \<open>
  The constructor of the wrapper. \<open>u\<close> is the result of \<open>generateUUID\<close>.
\<close>

definition AudioNode ::
    "(creation_params \<Rightarrow> (string \<rightharpoonup> jsval) option) \<Rightarrow> uuid \<Rightarrow> string \<Rightarrow> creation_params \<Rightarrow> settings
       \<Rightarrow> state \<Rightarrow> node \<times> state" where
  "AudioNode host u type creationParams userSettings s =
     (let settings' = mergeObjects userSettings (cp_settings creationParams);
          mapping' = (case cp_mapping creationParams of
                        Some t \<Rightarrow>
                          Some (t ++ (case s_mapping userSettings of
                                        Some m \<Rightarrow> m | None \<Rightarrow> Map.empty))
                      | None \<Rightarrow> None);
          params = \<lparr>cp_method = cp_method creationParams, cp_settings = settings',
                    cp_mapping = mapping'\<rparr>;
          r = audioNodeFactory host params s;
          r' = tag_native u (fst r) (snd r)
      in (\<lparr>uuid = u, macroContainerUUID = None, macroNameSpace = [],
           parameters = params, paramMapping = override mapping' (s_mapping settings'),
           nodeType = type, nativeNode = fst r', prevNode = None,
           isPlaying = False, nextNode = []\<rparr>, snd r'))"

definition resetSelection :: "state \<Rightarrow> state" where
  "resetSelection s = s\<lparr>selectedNodes := [], currentSelector := []\<rparr>"

definition setPreviousNode :: "uuid option \<Rightarrow> state \<Rightarrow> state" where
  "setPreviousNode n s = (case n of Some r \<Rightarrow> s\<lparr>previousNode := Some r\<rparr> | None \<Rightarrow> s)"

text \<open>
  The connection loop of \<open>createNode\<close> over \<open>nodesToConnect\<close>; an entry that is \<open>null\<close> or
  not in the store is passed over. An exception leaves the loop.
\<close>

fun createNode_loop :: "nat \<Rightarrow> uuid \<Rightarrow> uuid option list \<Rightarrow> state \<Rightarrow> error + state" where
  "createNode_loop fuel n [] s = Inr s"
| "createNode_loop fuel n (x # xs) s =
     (case (case x of Some i \<Rightarrow> map_option (\<lambda>_. i) (getNodeWithUUID s i) | None \<Rightarrow> None) of
        None \<Rightarrow> createNode_loop fuel n xs s
      | Some nodeToConnect \<Rightarrow>
          bind_err (connect s nodeToConnect n) (\<lambda>s1.
          bind_err (pushNextNode fuel s1 nodeToConnect n) (\<lambda>s2.
          bind_err (setPrevNode s2 n nodeToConnect) (\<lambda>s3.
            createNode_loop fuel n xs s3))))"

text \<open>
  The list \<open>createNode\<close> connects the new node to. An entry is used through
  \<open>getNodeWithUUID\<close>, which finds a wrapper for an id only: keys of the store are ids as
  \<open>generateUUID\<close> makes them, never a numeral or the text of a built-in.
\<close>

definition item_ref :: "item \<Rightarrow> uuid option" where
  "item_ref x = (case x of Id u \<Rightarrow> Some u | _ \<Rightarrow> None)"

definition nodesToConnect :: "state \<Rightarrow> uuid option list" where
  "nodesToConnect s =
     (if selectedNodes s \<noteq> [] then map item_ref (selectedNodes s) else [previousNode s])"

definition createNode ::
    "(creation_params \<Rightarrow> (string \<rightharpoonup> jsval) option) \<Rightarrow> nat \<Rightarrow> uuid \<Rightarrow> string \<Rightarrow> creation_params
       \<Rightarrow> settings \<Rightarrow> state \<Rightarrow> error + state" where
  "createNode host fuel u type creationParams userSettings s =
     (let r = AudioNode host u type creationParams userSettings s
      in bind_err (saveNode (snd r) (fst r)) (\<lambda>s1.
           if isMacro (fst r) then Inr s1
           else bind_err (createNode_loop fuel u (nodesToConnect s1) s1) (\<lambda>s2.
                  Inr (setPreviousNode (Some u) (resetSelection s2)))))"

definition createMacro ::
    "(creation_params \<Rightarrow> (string \<rightharpoonup> jsval) option) \<Rightarrow> nat \<Rightarrow> uuid \<Rightarrow> string \<Rightarrow> settings
       \<Rightarrow> state \<Rightarrow> error + state" where
  "createMacro host fuel u name userParams s =
     createNode host fuel u name
       \<lparr>cp_method = None,
        cp_settings = \<lparr>s_id = None, s_class = None, s_modulates = None, s_mapping = None\<rparr>,
        cp_mapping = None\<rparr>
       userParams s"

definition cracked_begin ::
    "(creation_params \<Rightarrow> (string \<rightharpoonup> jsval) option) \<Rightarrow> nat \<Rightarrow> uuid \<Rightarrow> string \<Rightarrow> settings
       \<Rightarrow> state \<Rightarrow> error + state" where
  "cracked_begin host fuel u name userParams s =
     (if name \<noteq> []
      then bind_err (createMacro host fuel u name userParams s) (\<lambda>s1.
             Inr (s1\<lparr>currentMacro := currentMacro s1 @ [u]\<rparr>))
      else Inr s)"

definition cracked_end :: "string \<Rightarrow> state \<Rightarrow> error + state" where
  "cracked_end name s =
     (case getCurrentMacro s of
        None \<Rightarrow> Inr s
      | Some topm \<Rightarrow>
          (case nodeStore s topm of
             None \<Rightarrow> Inl TypeError
           | Some t \<Rightarrow>
               (if nodeType t = name
                then bind_err (getCurrentMacroNamespace s) (\<lambda>ns.
                       Inr (s\<lparr>nodeStore := (nodeStore s)
                                (topm \<mapsto> (if ns \<noteq> [] then t\<lparr>macroNameSpace := ns\<rparr> else t)),
                              currentMacro := butlast (currentMacro s)\<rparr>))
                else Inr s)))"

section \<open>Selection\<close>








section \<open>Restart of a one-shot primitive\<close>







section \<open>Notions used to state the properties\<close>

text \<open>
  The wrapper on which \<open>pushNextNode\<close>, called on \<open>x\<close>, records a next node: \<open>x\<close> itself
  when its handle is a primitive carrying its own tag, else the wrapper reached through
  the last member of the macro, followed to the given depth.
\<close>

fun boundary_owner :: "nat \<Rightarrow> state \<Rightarrow> uuid \<Rightarrow> uuid option" where
  "boundary_owner 0 s x = None"
| "boundary_owner (Suc k) s x =
     (case nodeStore s x of
        None \<Rightarrow> None
      | Some t \<Rightarrow>
          (case getNodeToConnect t ''from'' of
             None \<Rightarrow> None
           | Some m \<Rightarrow>
               (case getNodeWithTag s (member_prop s m ''uuid'') of
                  None \<Rightarrow> None
                | Some fromNode \<Rightarrow>
                    if uuid fromNode \<noteq> uuid t then boundary_owner k s (uuid fromNode)
                    else Some x)))"

text \<open>
  The connection rule of node creation as the specification words it: the selected
  nodes when there are any, else the previous node when there is one, else nothing.
\<close>

definition default_targets :: "state \<Rightarrow> uuid list" where
  "default_targets s =
     (if selectedNodes s \<noteq> [] then List.map_filter item_ref (selectedNodes s)
      else (case previousNode s of Some p \<Rightarrow> [p] | None \<Rightarrow> []))"

text \<open>The entries of a list of references that are in the store.\<close>

fun resolved :: "state \<Rightarrow> uuid option list \<Rightarrow> uuid list" where
  "resolved s [] = []"
| "resolved s (x # xs) =
     (case x of
        Some i \<Rightarrow> (if getNodeWithUUID s i \<noteq> None then i # resolved s xs else resolved s xs)
      | None \<Rightarrow> resolved s xs)"

text \<open>
  A later state with the same destination in which every wrapper is still present,
  unchanged but for its next-list and previous-link, and has lost no next node.
\<close>

definition grows :: "state \<Rightarrow> state \<Rightarrow> bool" where
  "grows s s' \<longleftrightarrow>
     destination s' = destination s \<and>
     (\<forall>v. (nodeStore s v = None \<longrightarrow> nodeStore s' v = None) \<and>
          (\<forall>t. nodeStore s v = Some t \<longrightarrow>
             (\<exists>t'. nodeStore s' v = Some t' \<and> uuid t' = uuid t \<and>
                   macroContainerUUID t' = macroContainerUUID t \<and>
                   macroNameSpace t' = macroNameSpace t \<and> parameters t' = parameters t \<and>
                   paramMapping t' = paramMapping t \<and> nodeType t' = nodeType t \<and>
                   nativeNode t' = nativeNode t \<and> isPlaying t' = isPlaying t \<and>
                   set (nextNode t) \<subseteq> set (nextNode t'))))"

text \<open>
  The wire of a connection from the wrapper \<open>a\<close> to the wrapper \<open>b\<close>: from the primitive on
  the \<open>from\<close> side to the primitive or control parameter the \<open>to\<close> side resolves to; there is
  none when a side does not resolve to such a thing, or when both are one node.
\<close>

definition sink_of :: "state \<Rightarrow> endpoint \<Rightarrow> sink option" where
  "sink_of s e =
     (case e of
        ENode m \<Rightarrow> map_option SinkNode (member_hid s m)
      | EProp m name v \<Rightarrow>
          (if v = JParam then map_option (\<lambda>q. SinkParam q name) (member_hid s m) else None))"

definition wire_of :: "state \<Rightarrow> node \<Rightarrow> node \<Rightarrow> (nat \<times> sink) list" where
  "wire_of s a b =
     (if uuid a = uuid b then []
      else (case getNodesToConnect s a b of
              Inr (Some m, Some e) \<Rightarrow>
                (case (member_hid s m, sink_of s e) of
                   (Some h, Some k) \<Rightarrow> [(h, k)]
                 | _ \<Rightarrow> [])
            | _ \<Rightarrow> []))"

definition wire_between :: "state \<Rightarrow> uuid \<Rightarrow> uuid \<Rightarrow> (nat \<times> sink) list" where
  "wire_between s x y =
     (case (nodeStore s x, nodeStore s y) of
        (Some a, Some b) \<Rightarrow> wire_of s a b
      | _ \<Rightarrow> [])"

text \<open>What the connection loop of \<open>createNode\<close> has done for the targets \<open>ts\<close>.\<close>

definition loop_post :: "nat \<Rightarrow> uuid \<Rightarrow> uuid list \<Rightarrow> state \<Rightarrow> state \<Rightarrow> bool" where
  "loop_post k u ts s s' \<longleftrightarrow>
     grows s s' \<and>
     connections s' = connections s @ concat (map (\<lambda>x. wire_between s x u) ts) \<and>
     (ts = [] \<longrightarrow> s' = s) \<and>
     (\<forall>x\<in>set ts. \<exists>w nd. boundary_owner k s x = Some w \<and> nodeStore s' w = Some nd \<and>
                         u \<in> set (nextNode nd)) \<and>
     (ts \<noteq> [] \<longrightarrow> (\<exists>nd. nodeStore s' u = Some nd \<and> prevNode nd = Some (last ts))) \<and>
     (\<forall>v t. nodeStore s v = Some t \<longrightarrow> v \<noteq> u \<longrightarrow>
            (\<forall>x\<in>set ts. boundary_owner k s x \<noteq> Some v) \<longrightarrow>
            (\<exists>t'. nodeStore s' v = Some t' \<and> nextNode t' = nextNode t \<and>
                  prevNode t' = prevNode t))"




definition plain_key :: "string \<Rightarrow> bool" where
  "plain_key k \<longleftrightarrow>
     k \<noteq> ''__proto__'' \<and> k \<noteq> ''length'' \<and> index_of k = None \<and>
     k \<notin> set object_members \<and> k \<notin> set array_members"

text \<open>
  For the routing of a modulator: the property name looked up on the wrapper \<open>w\<close> for a
  declared parameter, what one member of a macro contributes, the parameter name a node
  declares, its owner's declaration first, and the member and property table of a node
  whose handle is one primitive.
\<close>

definition resolvedProperty :: "string \<Rightarrow> node \<Rightarrow> string" where
  "resolvedProperty property w = replace_value (resolveParamMapping property (paramMapping w))"







section \<open>Example states\<close>

text \<open>
  A host with an oscillator, a filter, a gain and a buffer source, and its destination
  (it has no method that makes one); a chain of a sine oscillator into a low-pass filter
  with both nodes selected; a state in which the macro
  \<open>lfo\<close>, declared to modulate \<open>frequency\<close>, is recording. Then a lookup index with a
  repeated id and a node indexed twice under one class key, and a sequencer configured for
  sixteen steps of 100 ms.
\<close>

definition host_props :: "creation_params \<Rightarrow> (string \<rightharpoonup> jsval)" where
  "host_props cp =
     (if cp_method cp = Some ''createOscillator''
      then [''frequency'' \<mapsto> JParam, ''detune'' \<mapsto> JParam, ''type'' \<mapsto> JStr ''sine'']
      else if cp_method cp = Some ''createBiquadFilter''
      then [''frequency'' \<mapsto> JParam, ''Q'' \<mapsto> JParam, ''gain'' \<mapsto> JParam]
      else if cp_method cp = Some ''createGain''
      then [''gain'' \<mapsto> JParam]
      else if cp_method cp = Some ''createBufferSource''
      then [''playbackRate'' \<mapsto> JParam, ''loopStart'' \<mapsto> JNum (Finite 0)]
      else Map.empty)"

definition host_example :: "creation_params \<Rightarrow> (string \<rightharpoonup> jsval) option" where
  "host_example cp =
     (if cp_method cp \<in> {Some ''createOscillator'', Some ''createBiquadFilter'',
                          Some ''createGain'', Some ''createBufferSource''}
      then Some (host_props cp) else None)"

definition destination_example :: prim where
  "destination_example = \<lparr>hid = 99, props = [''maxChannelCount'' \<mapsto> JNum (Finite 2)]\<rparr>"

definition no_settings :: settings where
  "no_settings = \<lparr>s_id = None, s_class = None, s_modulates = None, s_mapping = None\<rparr>"

definition foo_bar_settings :: settings where
  "foo_bar_settings = \<lparr>s_id = Some ''foo'', s_class = Some ''bar'', s_modulates = None, s_mapping = None\<rparr>"

definition sine_params :: creation_params where
  "sine_params =
     \<lparr>cp_method = Some ''createOscillator'', cp_settings = no_settings,
      cp_mapping = Some [''frequency'' \<mapsto> ''frequency.value'', ''detune'' \<mapsto> ''detune.value'']\<rparr>"

definition lowpass_params :: creation_params where
  "lowpass_params =
     \<lparr>cp_method = Some ''createBiquadFilter'', cp_settings = no_settings,
      cp_mapping = Some [''frequency'' \<mapsto> ''frequency.value'', ''q'' \<mapsto> ''Q.value'']\<rparr>"

definition gain_params :: creation_params where
  "gain_params =
     \<lparr>cp_method = Some ''createGain'', cp_settings = no_settings,
      cp_mapping = Some [''gain'' \<mapsto> ''gain.value'']\<rparr>"

definition empty_state :: state where
  "empty_state =
     \<lparr>nodeStore = Map.empty, nodeLookup = Map.empty, previousNode = None, selectedNodes = [],
      currentSelector = [], currentMacro = [], destination = destination_example, connections = [], nextHandle = 0\<rparr>"

definition sine_node :: node where
  "sine_node =
     \<lparr>uuid = ''u1'', macroContainerUUID = None, macroNameSpace = [], parameters = sine_params,
      paramMapping = cp_mapping sine_params, nodeType = ''sine'',
      nativeNode = Leaf \<lparr>hid = 0, props = (host_props sine_params)(''uuid'' \<mapsto> JStr ''u1'')\<rparr>,
      prevNode = None, isPlaying = False, nextNode = [''u2'']\<rparr>"

definition lowpass_node :: node where
  "lowpass_node =
     \<lparr>uuid = ''u2'', macroContainerUUID = None, macroNameSpace = [], parameters = lowpass_params,
      paramMapping = cp_mapping lowpass_params, nodeType = ''lowpass'',
      nativeNode = Leaf \<lparr>hid = 1, props = (host_props lowpass_params)(''uuid'' \<mapsto> JStr ''u2'')\<rparr>,
      prevNode = Some ''u1'', isPlaying = False, nextNode = []\<rparr>"

definition chain_example :: state where
  "chain_example =
     \<lparr>nodeStore = [''u1'' \<mapsto> sine_node, ''u2'' \<mapsto> lowpass_node],
      nodeLookup = [''*'' \<mapsto> [''u1'', ''u2''], ''sine'' \<mapsto> [''u1''], ''lowpass'' \<mapsto> [''u2'']],
      previousNode = None, selectedNodes = [Id ''u1'', Id ''u2''],
      currentSelector = ''sine,lowpass'', currentMacro = [], destination = destination_example, connections = [(0, SinkNode 1)],
      nextHandle = 2\<rparr>"

definition lfo_node :: node where
  "lfo_node =
     \<lparr>uuid = ''m1'', macroContainerUUID = None, macroNameSpace = [],
      parameters = \<lparr>cp_method = None, cp_settings = no_settings\<lparr>s_modulates := Some ''frequency''\<rparr>,
                    cp_mapping = None\<rparr>,
      paramMapping = None, nodeType = ''lfo'', nativeNode = Macro [],
      prevNode = None, isPlaying = False, nextNode = []\<rparr>"

definition recording_example :: state where
  "recording_example =
     \<lparr>nodeStore = [''m1'' \<mapsto> lfo_node],
      nodeLookup = [''*'' \<mapsto> [''m1''], ''lfo'' \<mapsto> [''m1'']],
      previousNode = None, selectedNodes = [], currentSelector = [], currentMacro = [''m1''],
      destination = destination_example, connections = [], nextHandle = 0\<rparr>"

lemmas model_defs =
  createNode_def nodesToConnect_def AudioNode_def audioNodeFactory_def saveNode_def updateMacro_def setNode_def
  setNodeLookup_def getCurrentMacroNamespace_def getCurrentMacro_def recordingMacro_def
  bind_err_def Let_def isMacro_def tag_native_def mergeObjects_def override_def truthy_str_def
  setter_def connect_def connect_nodes_def getNodesToConnect_def isModulator_def
  isModulatorType_def container_modulates_def areSiblings_def getNodeToConnect_def
  getNodeToConnectToModulator_def native_connect_def endpoint_truthy_def
  setPrevNode_def getNodeWithUUID_def getNodeWithTag_def resetSelection_def setPreviousNode_def
  resolveParamMapping_def member_of_def item_ref_def

lemmas example_defs =
  host_example_def host_props_def destination_example_def no_settings_def foo_bar_settings_def sine_params_def lowpass_params_def gain_params_def
  empty_state_def sine_node_def lowpass_node_def chain_example_def lfo_node_def
  recording_example_def

definition lookup_example :: "string \<rightharpoonup> uuid list" where
  "lookup_example =
     [''sine'' \<mapsto> [''u1'', ''u2''], ''.bar'' \<mapsto> [''u2'', ''u3'', ''u2''],
      ''#foo'' \<mapsto> [''u3'', ''u1'']]"


definition loop_example :: loop_state where
  "loop_example =
     \<lparr>isLoopRunning = True, ignoreGrid = False, loopStepSize = 16, loopInterval = Finite 100,
      loopCB = Some 0, loopData = [], loopIndex = - 1, loopListeners = [],
      loopTimeToNextStep = Finite 1\<rparr>"

definition listeners_example :: loop_state where
  "listeners_example =
     cracked_bind ''step'' (Some 2) [] [Id ''u2''] ''.bar''
       (cracked_bind ''step'' (Some 1) [] [Id ''u1''] ''sine'' loop_example)"

text \<open>
  The macro \<open>lfo\<close> with its oscillator and gain, and a sine oscillator outside it; a
  compound target whose only member is itself compound; a buffer source whose playback
  rate the macro modulates and which feeds a filter; and a state in which \<open>lfo\<close> is
  recording inside \<open>monosynth\<close>, with the states after an oscillator has been created
  there and after both macros have ended.
\<close>

definition lfo_osc_prim :: prim where
  "lfo_osc_prim = \<lparr>hid = 0, props = (host_props sine_params)(''uuid'' \<mapsto> JStr ''u1'')\<rparr>"

definition lfo_gain_prim :: prim where
  "lfo_gain_prim = \<lparr>hid = 1, props = (host_props gain_params)(''uuid'' \<mapsto> JStr ''u2'')\<rparr>"

definition target_prim :: prim where
  "target_prim = \<lparr>hid = 2, props = (host_props sine_params)(''uuid'' \<mapsto> JStr ''u3'')\<rparr>"

definition lfo_macro :: node where
  "lfo_macro = lfo_node\<lparr>nativeNode := Macro [MPrim lfo_osc_prim, MPrim lfo_gain_prim]\<rparr>"

definition lfo_osc :: node where
  "lfo_osc =
     \<lparr>uuid = ''u1'', macroContainerUUID = Some ''m1'', macroNameSpace = [],
      parameters = sine_params, paramMapping = cp_mapping sine_params, nodeType = ''osc'',
      nativeNode = Leaf lfo_osc_prim, prevNode = None, isPlaying = False, nextNode = [''u2'']\<rparr>"

definition lfo_gain :: node where
  "lfo_gain =
     \<lparr>uuid = ''u2'', macroContainerUUID = Some ''m1'', macroNameSpace = [],
      parameters = gain_params, paramMapping = cp_mapping gain_params, nodeType = ''gain'',
      nativeNode = Leaf lfo_gain_prim, prevNode = Some ''u1'', isPlaying = False, nextNode = []\<rparr>"

definition target_sine :: node where
  "target_sine =
     \<lparr>uuid = ''u3'', macroContainerUUID = None, macroNameSpace = [],
      parameters = sine_params, paramMapping = cp_mapping sine_params, nodeType = ''sine'',
      nativeNode = Leaf target_prim, prevNode = None, isPlaying = False, nextNode = []\<rparr>"

definition modulation_example :: state where
  "modulation_example =
     \<lparr>nodeStore = [''m1'' \<mapsto> lfo_macro, ''u1'' \<mapsto> lfo_osc, ''u2'' \<mapsto> lfo_gain,
                   ''u3'' \<mapsto> target_sine],
      nodeLookup = Map.empty, previousNode = None, selectedNodes = [],
      currentSelector = [], currentMacro = [], destination = destination_example, connections = [(0, SinkNode 1)],
      nextHandle = 3\<rparr>"

definition lfo_done_example :: state where
  "lfo_done_example =
     \<lparr>nodeStore = [''m1'' \<mapsto> lfo_macro, ''u1'' \<mapsto> lfo_osc, ''u2'' \<mapsto> lfo_gain],
      nodeLookup = [''*'' \<mapsto> [''m1'', ''u1'', ''u2''], ''lfo'' \<mapsto> [''m1''],
                    ''lfo osc'' \<mapsto> [''u1''], ''lfo gain'' \<mapsto> [''u2'']],
      previousNode = Some ''u2'', selectedNodes = [], currentSelector = [], currentMacro = [],
      destination = destination_example, connections = [(0, SinkNode 1)], nextHandle = 2\<rparr>"

lemmas modulation_defs =
  lfo_osc_prim_def lfo_gain_prim_def target_prim_def lfo_macro_def lfo_osc_def lfo_gain_def
  target_sine_def modulation_example_def lfo_done_example_def





















section \<open>The deduplication loop\<close>

text \<open>
  The index loops of \<open>arrayUnique\<close> compute \<open>dedup_first\<close>: each element is kept at its
  first occurrence and every later copy is dropped.
\<close>

lemma arrayUnique_inner_eq:
  "i < j \<Longrightarrow> arrayUnique_inner a i j = take j a @ filter (\<lambda>y. y \<noteq> a ! i) (drop j a)"
proof (induction a i j rule: arrayUnique_inner.induct)
  case (1 a i j)
  show ?case
  proof (cases "j < length a")
    case False
    then show ?thesis by (subst arrayUnique_inner.simps) simp
  next
    case True
    note lt = True
    have dr: "drop j a = a ! j # drop (Suc j) a"
      using lt by (simp add: Cons_nth_drop_Suc)
    show ?thesis
    proof (cases "a ! i = a ! j")
      case True
      have nth: "splice1 j a ! i = a ! i"
        using \<open>i < j\<close> lt by (simp add: splice1_def nth_append)
      have "arrayUnique_inner a i j = arrayUnique_inner (splice1 j a) i j"
        using lt True by (subst arrayUnique_inner.simps) simp
      also have "\<dots> = take j (splice1 j a) @ filter (\<lambda>y. y \<noteq> splice1 j a ! i) (drop j (splice1 j a))"
        using 1(1)[OF lt True \<open>i < j\<close>] .
      also have "\<dots> = take j a @ filter (\<lambda>y. y \<noteq> a ! i) (drop (Suc j) a)"
      proof -
        have "take j (splice1 j a) = take j a"
          using lt by (simp add: splice1_def)
        moreover have "drop j (splice1 j a) = drop (Suc j) a"
          using lt by (simp add: splice1_def)
        ultimately show ?thesis by (simp add: nth)
      qed
      finally show ?thesis using True dr by simp
    next
      case False
      have "arrayUnique_inner a i j = arrayUnique_inner a i (Suc j)"
        using lt False by (subst arrayUnique_inner.simps) simp
      also have "\<dots> = take (Suc j) a @ filter (\<lambda>y. y \<noteq> a ! i) (drop (Suc j) a)"
        using 1(2)[OF lt False] \<open>i < j\<close> by simp
      finally show ?thesis using False dr lt by (simp add: take_Suc_conv_app_nth)
    qed
  qed
qed

lemma arrayUnique_outer_eq:
  "arrayUnique_outer a i = take i a @ dedup_first (drop i a)"
proof (induction a i rule: arrayUnique_outer.induct)
  case (1 a i)
  show ?case
  proof (cases "i < length a")
    case False
    then show ?thesis by (subst arrayUnique_outer.simps) simp
  next
    case True
    define a' where "a' = arrayUnique_inner a i (Suc i)"
    have a': "a' = take (Suc i) a @ filter (\<lambda>y. y \<noteq> a ! i) (drop (Suc i) a)"
      unfolding a'_def by (rule arrayUnique_inner_eq) simp
    have len: "length (take (Suc i) a) = Suc i"
      using True by simp
    have "arrayUnique_outer a i = arrayUnique_outer a' (Suc i)"
      using True unfolding a'_def by (subst arrayUnique_outer.simps) simp
    also have "\<dots> = take (Suc i) a' @ dedup_first (drop (Suc i) a')"
      using 1[OF True] unfolding a'_def .
    also have "\<dots> = take (Suc i) a @ dedup_first (filter (\<lambda>y. y \<noteq> a ! i) (drop (Suc i) a))"
      using len by (simp add: a')
    also have "\<dots> = take i a @ dedup_first (drop i a)"
      using True by (simp add: take_Suc_conv_app_nth Cons_nth_drop_Suc[symmetric])
    finally show ?thesis .
  qed
qed

lemma arrayUnique_eq: "arrayUnique a = dedup_first a"
  by (simp add: arrayUnique_def arrayUnique_outer_eq)

lemma set_dedup_first: "set (dedup_first xs) = set xs"
  by (induction xs rule: dedup_first.induct) auto

lemma distinct_dedup_first: "distinct (dedup_first xs)"
  by (induction xs rule: dedup_first.induct) (auto simp: set_dedup_first)

lemma dedup_first_filter: "dedup_first (filter P xs) = filter P (dedup_first xs)"
proof (induction xs rule: dedup_first.induct)
  case 1
  then show ?case by simp
next
  case (2 x xs)
  have IH: "dedup_first (filter P (filter (\<lambda>y. y \<noteq> x) xs)) =
      filter P (dedup_first (filter (\<lambda>y. y \<noteq> x) xs))"
    using 2 .
  show ?case
  proof (cases "P x")
    case True
    have "filter (\<lambda>y. y \<noteq> x) (filter P xs) = filter P (filter (\<lambda>y. y \<noteq> x) xs)"
      by (simp add: conj_commute)
    with True IH show ?thesis by simp
  next
    case False
    have "filter P (filter (\<lambda>y. y \<noteq> x) xs) = filter P xs"
      using False by (auto intro: filter_cong)
    with False IH show ?thesis by simp
  qed
qed

lemma dedup_first_distinct: "distinct xs \<Longrightarrow> dedup_first xs = xs"
proof (induction xs)
  case Nil
  then show ?case by simp
next
  case (Cons x xs)
  then have "filter (\<lambda>y. y \<noteq> x) xs = xs"
    by (auto intro: filter_True)
  with Cons show ?case by simp
qed

lemma dedup_first_append:
  "dedup_first (xs @ ys) = dedup_first xs @ filter (\<lambda>y. y \<notin> set xs) (dedup_first ys)"
proof (induction xs arbitrary: ys rule: dedup_first.induct)
  case 1
  then show ?case by simp
next
  case (2 x xs)
  have "dedup_first ((x # xs) @ ys) = x # dedup_first (filter (\<lambda>y. y \<noteq> x) xs @ filter (\<lambda>y. y \<noteq> x) ys)"
    by simp
  also have "\<dots> = x # dedup_first (filter (\<lambda>y. y \<noteq> x) xs) @
      filter (\<lambda>y. y \<notin> set (filter (\<lambda>y. y \<noteq> x) xs)) (dedup_first (filter (\<lambda>y. y \<noteq> x) ys))"
    using 2 by simp
  also have "\<dots> = dedup_first (x # xs) @ filter (\<lambda>y. y \<notin> set (x # xs)) (dedup_first ys)"
    by (auto simp: dedup_first_filter intro: filter_cong)
  finally show ?case .
qed

lemma dedup_first_idem_append:
  "dedup_first (dedup_first xs @ ys) = dedup_first (xs @ ys)"
  by (simp add: dedup_first_append[of "dedup_first xs"] dedup_first_append[of xs]
        set_dedup_first dedup_first_distinct distinct_dedup_first)

section \<open>Properties of the selector lookup\<close>


lemma plain_key_lookup: "plain_key k \<Longrightarrow> lookup_get lk k = map_option Arr (lk k)"
  by (simp add: lookup_get_def plain_key_def split: option.splits)

lemma digits_val_None:
  "c \<in> set k \<Longrightarrow> digit_of c = None \<Longrightarrow> digits_val k acc = None"
  by (induction k arbitrary: acc) (auto split: option.splits)

lemma index_of_None:
  assumes "c \<in> set k" and "digit_of c = None"
  shows "index_of k = None"
proof -
  have "digits_val k 0 = None"
    using assms by (rule digits_val_None)
  then show ?thesis
    by (cases k) (simp_all add: index_of_def del: digits_val.simps)
qed

lemma member_chars:
  "k \<in> set object_members \<union> set array_members \<union> {''__proto__'', ''length''} \<Longrightarrow>
   CHR '' '' \<notin> set k \<and> CHR ''#'' \<notin> set k \<and> CHR ''.'' \<notin> set k \<and> CHR ''*'' \<notin> set k"
  by (auto simp: object_members_def array_members_def)

lemma plain_keyI:
  assumes "c \<in> set k" and "c \<in> {CHR '' '', CHR ''#'', CHR ''.'', CHR ''*''}"
  shows "plain_key k"
proof -
  have "digit_of c = None"
    using assms(2) by (auto simp: digit_of_def)
  then have "index_of k = None"
    by (rule index_of_None[OF assms(1)])
  moreover have "k \<notin> set object_members \<union> set array_members \<union> {''__proto__'', ''length''}"
    using member_chars[of k] assms by auto
  ultimately show ?thesis
    by (simp add: plain_key_def)
qed

lemma id_key_plain: "getSelectorType cl = ''id'' \<Longrightarrow> plain_key cl"
  by (cases cl) (auto intro: plain_keyI[of "CHR ''#''"] split: if_splits)

lemma clause_matches_plain:
  "plain_key c \<Longrightarrow>
   clause_matches lk c =
     map Id (if c = [] then []
             else if getSelectorType c = ''id'' then take 1 (case lk c of None \<Rightarrow> [] | Some l \<Rightarrow> l)
             else (case lk c of None \<Rightarrow> [] | Some l \<Rightarrow> l))"
proof (cases "lk c")
  case None
  assume "plain_key c"
  with None show ?thesis
    by (simp add: clause_matches_def plain_key_lookup)
next
  case (Some tmp)
  assume pk: "plain_key c"
  show ?thesis
  proof (cases "1 < length tmp")
    case True
    then have "take 1 tmp = [tmp ! 0]"
      by (cases tmp) auto
    with True Some pk show ?thesis
      by (simp add: clause_matches_def plain_key_lookup)
  next
    case False
    then have "take 1 tmp = tmp"
      by (cases tmp) auto
    with False Some pk show ?thesis
      by (simp add: clause_matches_def plain_key_lookup)
  qed
qed




lemma selector_step_eq:
  "distinct nodes \<Longrightarrow>
   selector_step lk nodes cur = dedup_first (nodes @ clause_matches lk cur)"
proof -
  assume d: "distinct nodes"
  show ?thesis
  proof (cases "cur \<noteq> [] \<and> lookup_get lk cur \<noteq> None")
    case True
    then obtain v where v: "lookup_get lk cur = Some v" by auto
    show ?thesis
    proof (cases v)
      case (Arr tmp)
      with True v show ?thesis
        by (simp add: selector_step_def clause_matches_def arrayUnique_eq)
    next
      case (Single x)
      with True v d show ?thesis
        by (simp add: selector_step_def clause_matches_def arrayUnique_eq dedup_first_distinct)
    qed
  next
    case False
    then have "selector_step lk nodes cur = nodes" and "clause_matches lk cur = []"
      by (auto simp: selector_step_def clause_matches_def)
    then show ?thesis using d by (simp add: dedup_first_distinct)
  qed
qed

lemma foldl_selector_step:
  "distinct acc \<Longrightarrow>
   foldl (selector_step lk) acc cs = dedup_first (acc @ concat (map (clause_matches lk) cs))"
proof (induction cs arbitrary: acc)
  case Nil
  then show ?case by (simp add: dedup_first_distinct)
next
  case (Cons c cs)
  have step: "selector_step lk acc c = dedup_first (acc @ clause_matches lk c)"
    by (rule selector_step_eq[OF Cons.prems])
  have "foldl (selector_step lk) acc (c # cs) =
      dedup_first (dedup_first (acc @ clause_matches lk c) @ concat (map (clause_matches lk) cs))"
    using Cons.IH[of "dedup_first (acc @ clause_matches lk c)"]
    by (simp add: step distinct_dedup_first)
  then show ?case
    by (simp add: dedup_first_idem_append)
qed

lemma getNodesWithSelector_eq:
  "getNodesWithSelector lk sel =
     dedup_first (concat (map (clause_matches lk) (split_comma sel)))"
  using foldl_selector_step[of "[]" lk "split_comma sel"]
  by (simp add: getNodesWithSelector_def)



lemma split_comma_no_comma: "CHR '','' \<notin> set cl \<Longrightarrow> split_comma cl = [cl]"
  by (induction cl) auto

lemma getSelectorType_id_nonempty: "getSelectorType cl = ''id'' \<Longrightarrow> cl \<noteq> []"
  by (cases cl) auto





text \<open>
  Claim C7. A clause classified as an id clause (leading \<open>#\<close>) yields at most one node
  id, the first one stored under that key, however many ids the index holds under it.
\<close>

theorem id_clause_at_most_one:
  assumes "getSelectorType cl = ''id''" and "CHR '','' \<notin> set cl"
  shows "getNodesWithSelector lk cl =
           map Id (take 1 (case lk cl of None \<Rightarrow> [] | Some tmp \<Rightarrow> tmp)) \<and>
         length (getNodesWithSelector lk cl) \<le> 1"
proof -
  have ne: "cl \<noteq> []"
    using assms(1) by (rule getSelectorType_id_nonempty)
  have pk: "plain_key cl"
    using assms(1) by (rule id_key_plain)
  have "clause_matches lk cl = map Id (take 1 (case lk cl of None \<Rightarrow> [] | Some tmp \<Rightarrow> tmp))"
    using ne assms(1) by (simp add: clause_matches_plain[OF pk])
  moreover have "dedup_first (map Id (take 1 xs)) = map Id (take 1 xs)" for xs :: "uuid list"
    by (cases xs) simp_all
  ultimately have "getNodesWithSelector lk cl =
      map Id (take 1 (case lk cl of None \<Rightarrow> [] | Some tmp \<Rightarrow> tmp))"
    using assms(2) by (simp add: getNodesWithSelector_eq split_comma_no_comma)
  then show ?thesis by simp
qed

theorem id_clause_at_most_one_witness:
  "getSelectorType ''#foo'' = ''id'' \<and> CHR '','' \<notin> set ''#foo'' \<and>
   getNodesWithSelector lookup_example ''#foo'' = [Id ''u3'']"
  using id_clause_at_most_one[of "''#foo''" lookup_example]
  by (simp add: lookup_example_def)

section \<open>Properties of the macro recorder\<close>

lemma macro_types_ok:
  "\<forall>m\<in>set ms. m \<in> dom (nodeStore s) \<Longrightarrow> \<exists>r. macro_types s ms = Inr r"
  by (induction ms) (auto split: option.splits sum.splits)


text \<open>
  Claim C9. \<open>end(name)\<close> raises nothing; it pops the recording stack exactly when the
  stack is not empty and the type of the macro on top equals \<open>name\<close>, and otherwise it
  leaves the whole state as it was: the stack, the owner of every node and every
  namespace string. (Every macro on the stack is a stored wrapper.)
\<close>

theorem end_pops_only_on_match:
  assumes "\<forall>m\<in>set (currentMacro s). m \<in> dom (nodeStore s)"
  shows "\<exists>s'. cracked_end name s = Inr s' \<and>
           (if currentMacro s \<noteq> [] \<and>
               map_option nodeType (nodeStore s (last (currentMacro s))) = Some name
            then currentMacro s' = butlast (currentMacro s) \<and>
                 currentMacro s' \<noteq> currentMacro s
            else s' = s)"
proof (cases "currentMacro s = []")
  case True
  then show ?thesis
    by (simp add: cracked_end_def getCurrentMacro_def recordingMacro_def)
next
  case False
  then have lastmem: "last (currentMacro s) \<in> set (currentMacro s)"
    by simp
  then obtain t where t: "nodeStore s (last (currentMacro s)) = Some t"
    using assms by blast
  obtain ns where ns: "macro_types s (currentMacro s) = Inr ns"
    using macro_types_ok[OF assms] by blast
  have neq: "butlast (currentMacro s) \<noteq> currentMacro s"
    using False by (metis append_butlast_last_id append_self_conv list.distinct(1))
  show ?thesis
    using False t ns neq
    by (simp add: cracked_end_def getCurrentMacro_def recordingMacro_def last_conv_nth
          getCurrentMacroNamespace_def bind_err_def)
qed

theorem end_pops_only_on_match_witness:
  "cracked_end ''osc'' recording_example = Inr recording_example \<and>
   cracked_end ''lfo'' empty_state = Inr empty_state \<and>
   (\<exists>s'. cracked_end ''lfo'' recording_example = Inr s' \<and> currentMacro s' = [])"
  using end_pops_only_on_match[of recording_example "''osc''"]
    end_pops_only_on_match[of empty_state "''lfo''"]
    end_pops_only_on_match[of recording_example "''lfo''"]
  by (auto simp: example_defs)

section \<open>Properties of node creation\<close>

lemma bind_err_Inr:
  "bind_err m f = Inr y \<longleftrightarrow> (\<exists>x. m = Inr x \<and> f x = Inr y)"
  by (cases m) (auto simp: bind_err_def)

lemma AudioNode_state:
  "\<exists>d h. snd (AudioNode host u ty cp user s) = s\<lparr>destination := d, nextHandle := h\<rparr>"
proof (cases "truthy_str (cp_method cp)")
  case True
  show ?thesis
  proof (cases "host \<lparr>cp_method = cp_method cp,
                       cp_settings = mergeObjects user (cp_settings cp),
                       cp_mapping = (case cp_mapping cp of
                                       Some t \<Rightarrow> Some (t ++ (case s_mapping user of
                                                               Some m \<Rightarrow> m | None \<Rightarrow> Map.empty))
                                     | None \<Rightarrow> None)\<rparr>")
    case None
    with True have "snd (AudioNode host u ty cp user s) =
        s\<lparr>destination := (destination s)\<lparr>props := (props (destination s))(''uuid'' \<mapsto> JStr u)\<rparr>,
          nextHandle := nextHandle s\<rparr>"
      by (simp add: AudioNode_def audioNodeFactory_def Let_def tag_native_def)
    then show ?thesis by blast
  next
    case (Some ps)
    with True have "snd (AudioNode host u ty cp user s) =
        s\<lparr>destination := destination s, nextHandle := Suc (nextHandle s)\<rparr>"
      by (simp add: AudioNode_def audioNodeFactory_def Let_def tag_native_def)
    then show ?thesis by blast
  qed
next
  case False
  then have "snd (AudioNode host u ty cp user s) =
      s\<lparr>destination := destination s, nextHandle := nextHandle s\<rparr>"
    by (simp add: AudioNode_def audioNodeFactory_def Let_def tag_native_def)
  then show ?thesis by blast
qed

lemma isMacro_AudioNode:
  "isMacro (fst (AudioNode host u ty cp user s)) = (\<not> truthy_str (cp_method cp))"
  by (simp add: AudioNode_def audioNodeFactory_def Let_def isMacro_def tag_native_def
      split: option.splits)

lemma updateMacro_frame:
  assumes "updateMacro s n = Inr r"
  shows "selectedNodes (snd r) = selectedNodes s \<and> currentSelector (snd r) = currentSelector s \<and>
         previousNode (snd r) = previousNode s \<and> connections (snd r) = connections s \<and>
         currentMacro (snd r) = currentMacro s \<and> nodeLookup (snd r) = nodeLookup s \<and>
         nextHandle (snd r) = nextHandle s \<and> destination (snd r) = destination s"
  using assms
  by (auto simp: updateMacro_def Let_def split: option.splits native.splits if_splits)

lemma setNodeLookup_frame:
  assumes "setNodeLookup s n = Inr s'"
  shows "\<exists>l. s' = s\<lparr>nodeLookup := l\<rparr>"
  using assms by (auto simp: setNodeLookup_def bind_err_Inr Let_def)

lemma saveNode_frame:
  assumes "saveNode s n = Inr s'"
  shows "selectedNodes s' = selectedNodes s \<and> currentSelector s' = currentSelector s \<and>
         previousNode s' = previousNode s \<and> connections s' = connections s \<and>
         currentMacro s' = currentMacro s \<and> nextHandle s' = nextHandle s \<and>
         destination s' = destination s"
proof -
  from assms obtain r where r: "updateMacro s n = Inr r"
    and l: "setNodeLookup (setNode (snd r) (fst r)) (fst r) = Inr s'"
    by (auto simp: saveNode_def bind_err_Inr)
  from setNodeLookup_frame[OF l] obtain lk where "s' = (setNode (snd r) (fst r))\<lparr>nodeLookup := lk\<rparr>"
    by blast
  then show ?thesis
    using updateMacro_frame[OF r] by (simp add: setNode_def)
qed

lemma createNode_Inr:
  "createNode host fuel u ty cp user s = Inr s' \<longleftrightarrow>
     (\<exists>s1. saveNode (snd (AudioNode host u ty cp user s)) (fst (AudioNode host u ty cp user s))
              = Inr s1 \<and>
       (if truthy_str (cp_method cp)
        then \<exists>s2. createNode_loop fuel u (nodesToConnect s1) s1 = Inr s2 \<and>
               s' = setPreviousNode (Some u) (resetSelection s2)
        else s' = s1))"
proof (cases "truthy_str (cp_method cp)")
  case True
  then have "\<not> isMacro (fst (AudioNode host u ty cp user s))"
    by (simp add: isMacro_AudioNode)
  with True show ?thesis
    by (auto simp: createNode_def Let_def bind_err_Inr nodesToConnect_def)
next
  case False
  then have "isMacro (fst (AudioNode host u ty cp user s))"
    by (simp add: isMacro_AudioNode)
  with False show ?thesis
    by (auto simp: createNode_def Let_def bind_err_Inr)
qed

lemma AudioNode_selection:
  "selectedNodes (snd (AudioNode host u ty cp user s)) = selectedNodes s \<and>
   currentSelector (snd (AudioNode host u ty cp user s)) = currentSelector s \<and>
   previousNode (snd (AudioNode host u ty cp user s)) = previousNode s"
  using AudioNode_state[of host u ty cp user s] by auto

lemma createNode_selection_aux:
  assumes "createNode host fuel u ty cp user s = Inr s'"
  shows "if truthy_str (cp_method cp)
       then selectedNodes s' = [] \<and> currentSelector s' = [] \<and> previousNode s' = Some u
       else selectedNodes s' = selectedNodes s \<and> currentSelector s' = currentSelector s \<and>
            previousNode s' = previousNode s"
proof -
  let ?r = "AudioNode host u ty cp user s"
  from assms obtain s1 where s1: "saveNode (snd ?r) (fst ?r) = Inr s1"
    and rest: "if truthy_str (cp_method cp)
        then \<exists>s2. createNode_loop fuel u (nodesToConnect s1) s1 = Inr s2 \<and>
               s' = setPreviousNode (Some u) (resetSelection s2)
        else s' = s1"
    unfolding createNode_Inr by blast
  show ?thesis
  proof (cases "truthy_str (cp_method cp)")
    case True
    with rest obtain s2 where "s' = setPreviousNode (Some u) (resetSelection s2)"
      by auto
    with True show ?thesis
      by (simp add: setPreviousNode_def resetSelection_def)
  next
    case False
    with rest have "s' = s1" by simp
    with False saveNode_frame[OF s1] AudioNode_selection[of host u ty cp user s]
    show ?thesis by simp
  qed
qed


text \<open>
  Claim C10. A creation of a node that is not a macro (its creation parameters name a
  construction method), when it returns, leaves the selection empty, the selector text
  empty and the previous-node reference on the new node, whatever it was connected to.
  The creation of a macro wrapper, directly or through \<open>begin\<close>, leaves the selection, the
  selector text and the previous-node reference as they were.
\<close>

theorem createNode_selection:
  "(createNode host fuel u ty cp user s = Inr s' \<longrightarrow>
      (if truthy_str (cp_method cp)
       then selectedNodes s' = [] \<and> currentSelector s' = [] \<and> previousNode s' = Some u
       else selectedNodes s' = selectedNodes s \<and> currentSelector s' = currentSelector s \<and>
            previousNode s' = previousNode s)) \<and>
   (cracked_begin host fuel u name user s = Inr s'' \<longrightarrow>
      selectedNodes s'' = selectedNodes s \<and> currentSelector s'' = currentSelector s \<and>
      previousNode s'' = previousNode s)"
proof -
  have "selectedNodes s'' = selectedNodes s \<and> currentSelector s'' = currentSelector s \<and>
      previousNode s'' = previousNode s"
    if b: "cracked_begin host fuel u name user s = Inr s''"
  proof (cases "name = []")
    case True
    with b show ?thesis by (simp add: cracked_begin_def)
  next
    case False
    with b obtain s1 where s1: "createMacro host fuel u name user s = Inr s1"
      and s'': "s'' = s1\<lparr>currentMacro := currentMacro s1 @ [u]\<rparr>"
      by (auto simp: cracked_begin_def bind_err_Inr)
    from createNode_selection_aux[OF s1[unfolded createMacro_def]] s'' show ?thesis
      by (simp add: truthy_str_def)
  qed
  then show ?thesis
    using createNode_selection_aux[of host fuel u ty cp user s s'] by blast
qed

theorem createNode_selection_witness:
  "(\<exists>s'. createNode host_example 3 ''u3'' ''gain'' gain_params no_settings chain_example = Inr s' \<and>
      selectedNodes s' = [] \<and> currentSelector s' = [] \<and> previousNode s' = Some ''u3'') \<and>
   (\<exists>s''. cracked_begin host_example 3 ''u3'' ''lfo'' no_settings chain_example = Inr s'' \<and>
      selectedNodes s'' = [Id ''u1'', Id ''u2''] \<and> currentSelector s'' = ''sine,lowpass'' \<and>
      previousNode s'' = None)"
proof -
  obtain s' where s': "createNode host_example 3 ''u3'' ''gain'' gain_params no_settings chain_example = Inr s'"
    by (simp add: model_defs example_defs numeral_3_eq_3)
  obtain s'' where s'': "cracked_begin host_example 3 ''u3'' ''lfo'' no_settings chain_example = Inr s''"
    by (simp add: cracked_begin_def createMacro_def model_defs example_defs)
  show ?thesis
    using s' s''
      createNode_selection[where host = host_example and fuel = 3 and u = "''u3''"
        and ty = "''gain''" and cp = gain_params and user = no_settings and s = chain_example
        and s' = s' and name = "''lfo''" and s'' = s'']
    by (simp add: example_defs truthy_str_def)
qed

section \<open>The default connection rule\<close>

lemma grows_refl: "grows s s"
  by (simp add: grows_def)

lemma growsD_None: "grows s s' \<Longrightarrow> nodeStore s v = None \<Longrightarrow> nodeStore s' v = None"
  by (simp add: grows_def)

lemma growsD_dest: "grows s s' \<Longrightarrow> destination s' = destination s"
  by (simp add: grows_def)

lemma growsD_all:
  "grows s s' \<Longrightarrow> nodeStore s v = Some t \<Longrightarrow>
   \<exists>t'. nodeStore s' v = Some t' \<and> uuid t' = uuid t \<and>
        macroContainerUUID t' = macroContainerUUID t \<and> macroNameSpace t' = macroNameSpace t \<and>
        parameters t' = parameters t \<and> paramMapping t' = paramMapping t \<and>
        nodeType t' = nodeType t \<and> nativeNode t' = nativeNode t \<and> isPlaying t' = isPlaying t \<and>
        set (nextNode t) \<subseteq> set (nextNode t')"
  by (simp add: grows_def)

lemma growsD_Some:
  "grows s s' \<Longrightarrow> nodeStore s v = Some t \<Longrightarrow>
   \<exists>t'. nodeStore s' v = Some t' \<and> uuid t' = uuid t \<and> nativeNode t' = nativeNode t \<and>
        set (nextNode t) \<subseteq> set (nextNode t')"
  using growsD_all[of s s' v t] by blast

lemma grows_trans:
  assumes ab: "grows a b" and bc: "grows b c"
  shows "grows a c"
  unfolding grows_def
proof (intro allI conjI impI)
  show "destination c = destination a"
    using growsD_dest[OF ab] growsD_dest[OF bc] by simp
next
  fix v
  assume "nodeStore a v = None"
  then show "nodeStore c v = None"
    using growsD_None[OF ab] growsD_None[OF bc] by blast
next
  fix v t
  assume "nodeStore a v = Some t"
  from growsD_all[OF ab this] obtain t1 where t1: "nodeStore b v = Some t1"
      "uuid t1 = uuid t" "macroContainerUUID t1 = macroContainerUUID t"
      "macroNameSpace t1 = macroNameSpace t" "parameters t1 = parameters t"
      "paramMapping t1 = paramMapping t" "nodeType t1 = nodeType t"
      "nativeNode t1 = nativeNode t" "isPlaying t1 = isPlaying t"
      "set (nextNode t) \<subseteq> set (nextNode t1)"
    by blast
  from growsD_all[OF bc t1(1)] obtain t2 where t2: "nodeStore c v = Some t2"
      "uuid t2 = uuid t1" "macroContainerUUID t2 = macroContainerUUID t1"
      "macroNameSpace t2 = macroNameSpace t1" "parameters t2 = parameters t1"
      "paramMapping t2 = paramMapping t1" "nodeType t2 = nodeType t1"
      "nativeNode t2 = nativeNode t1" "isPlaying t2 = isPlaying t1"
      "set (nextNode t1) \<subseteq> set (nextNode t2)"
    by blast
  show "\<exists>t'. nodeStore c v = Some t' \<and> uuid t' = uuid t \<and>
        macroContainerUUID t' = macroContainerUUID t \<and> macroNameSpace t' = macroNameSpace t \<and>
        parameters t' = parameters t \<and> paramMapping t' = paramMapping t \<and>
        nodeType t' = nodeType t \<and> nativeNode t' = nativeNode t \<and> isPlaying t' = isPlaying t \<and>
        set (nextNode t) \<subseteq> set (nextNode t')"
    using t1 t2 by auto
qed

lemma grows_store_None: "grows s s' \<Longrightarrow> (nodeStore s' i = None) = (nodeStore s i = None)"
proof (cases "nodeStore s i")
  case None
  assume "grows s s'"
  from growsD_None[OF this None] None show ?thesis by simp
next
  case (Some t)
  assume "grows s s'"
  from growsD_Some[OF this Some] Some show ?thesis by auto
qed

lemma grows_resolves:
  "grows s s' \<Longrightarrow> (getNodeWithUUID s' i = None) = (getNodeWithUUID s i = None)"
  by (simp add: getNodeWithUUID_def grows_store_None)

lemma grows_resolved: "grows s s' \<Longrightarrow> resolved s' xs = resolved s xs"
proof (induction xs)
  case Nil
  then show ?case by simp
next
  case (Cons x xs)
  show ?case
  proof (cases x)
    case None
    with Cons show ?thesis by simp
  next
    case (Some i)
    with Cons grows_resolves[OF Cons.prems, of i] show ?thesis by simp
  qed
qed

lemma getNodeToConnect_native:
  "nativeNode a = nativeNode b \<Longrightarrow> getNodeToConnect a w = getNodeToConnect b w"
  by (simp add: getNodeToConnect_def)

lemma grows_tag:
  assumes "grows s s'"
  shows "(getNodeWithTag s v = None \<longrightarrow> getNodeWithTag s' v = None) \<and>
         (\<forall>f. getNodeWithTag s v = Some f \<longrightarrow>
            (\<exists>f'. getNodeWithTag s' v = Some f' \<and> uuid f' = uuid f))"
proof (cases v)
  case None
  then show ?thesis by (simp add: getNodeWithTag_def)
next
  case (Some j)
  show ?thesis
  proof (cases j)
    case (JStr i)
    show ?thesis
    proof (cases "nodeStore s i")
      case None
      from growsD_None[OF assms None] None Some JStr show ?thesis
        by (simp add: getNodeWithTag_def getNodeWithUUID_def)
    next
      case st: (Some t)
      from growsD_Some[OF assms st] st Some JStr show ?thesis
        by (auto simp: getNodeWithTag_def getNodeWithUUID_def)
    qed
  qed (simp_all add: Some getNodeWithTag_def)
qed

lemma member_prop_grows: "grows s s' \<Longrightarrow> member_prop s' m n = member_prop s m n"
  by (cases m) (simp_all add: growsD_dest)

lemma member_hid_grows: "grows s s' \<Longrightarrow> member_hid s' m = member_hid s m"
  by (cases m) (simp_all add: growsD_dest)

lemma boundary_owner_grows:
  "grows s s' \<Longrightarrow> boundary_owner k s' x = boundary_owner k s x"
proof (induction k arbitrary: x)
  case 0
  then show ?case by simp
next
  case (Suc k)
  show ?case
  proof (cases "nodeStore s x")
    case None
    then have "nodeStore s' x = None"
      using Suc.prems by (rule growsD_None[rotated])
    with None show ?thesis by simp
  next
    case (Some t)
    then obtain t' where t': "nodeStore s' x = Some t'" "uuid t' = uuid t"
        "nativeNode t' = nativeNode t"
      using growsD_Some[OF Suc.prems] by blast
    have g: "getNodeToConnect t' ''from'' = getNodeToConnect t ''from''"
      by (rule getNodeToConnect_native[OF t'(3)])
    show ?thesis
    proof (cases "getNodeToConnect t ''from''")
      case None
      with Some t' g show ?thesis by simp
    next
      case (Some m)
      note m = Some
      show ?thesis
      proof (cases "getNodeWithTag s (member_prop s m ''uuid'')")
        case None
        then have "getNodeWithTag s' (member_prop s' m ''uuid'') = None"
          using grows_tag[OF Suc.prems] by (simp add: member_prop_grows[OF Suc.prems])
        with None \<open>nodeStore s x = Some t\<close> t' g m show ?thesis by simp
      next
        case (Some f)
        then obtain f' where f': "getNodeWithTag s' (member_prop s' m ''uuid'') = Some f'"
            "uuid f' = uuid f"
          using grows_tag[OF Suc.prems] by (auto simp: member_prop_grows[OF Suc.prems])
        show ?thesis
          using Some f' \<open>nodeStore s x = Some t\<close> t' g m Suc.IH[OF Suc.prems]
          by simp
      qed
    qed
  qed
qed

lemma getNodesToConnect_from:
  "getNodesToConnect s a b = Inr r \<Longrightarrow> fst r = getNodeToConnect a ''from''"
  by (auto simp: getNodesToConnect_def bind_err_Inr split: if_splits)

lemma grows_tag_all:
  assumes "grows s s'"
  shows "(getNodeWithTag s v = None \<longrightarrow> getNodeWithTag s' v = None) \<and>
         (\<forall>f. getNodeWithTag s v = Some f \<longrightarrow>
            (\<exists>f'. getNodeWithTag s' v = Some f' \<and> uuid f' = uuid f \<and>
                  paramMapping f' = paramMapping f))"
proof (cases v)
  case None
  then show ?thesis by (simp add: getNodeWithTag_def)
next
  case (Some j)
  show ?thesis
  proof (cases j)
    case (JStr i)
    show ?thesis
    proof (cases "nodeStore s i")
      case None
      from growsD_None[OF assms None] None Some JStr show ?thesis
        by (simp add: getNodeWithTag_def getNodeWithUUID_def)
    next
      case st: (Some t)
      from growsD_all[OF assms st] st Some JStr show ?thesis
        by (auto simp: getNodeWithTag_def getNodeWithUUID_def)
    qed
  qed (simp_all add: Some getNodeWithTag_def)
qed

lemma modulator_members_grows:
  assumes g: "grows s s'"
  shows "modulator_members s' property whole ms = modulator_members s property whole ms"
proof (induction ms)
  case Nil
  then show ?case by simp
next
  case (Cons m ms)
  show ?case
  proof (cases "getNodeWithTag s (member_prop s m ''uuid'')")
    case None
    then have "getNodeWithTag s' (member_prop s m ''uuid'') = None"
      using grows_tag_all[OF g] by blast
    with None show ?thesis
      by (simp add: member_prop_grows[OF g])
  next
    case (Some w)
    then obtain w' where w': "getNodeWithTag s' (member_prop s m ''uuid'') = Some w'"
        "paramMapping w' = paramMapping w"
      using grows_tag_all[OF g] by blast
    with Some Cons show ?thesis
      by (simp add: member_prop_grows[OF g] Let_def cong: option.case_cong)
  qed
qed

lemma container_modulates_grows:
  assumes g: "grows s s'" and m: "macroContainerUUID a' = macroContainerUUID a"
  shows "container_modulates s' a' = container_modulates s a"
proof (cases "macroContainerUUID a")
  case None
  with m show ?thesis by (simp add: container_modulates_def)
next
  case (Some c)
  show ?thesis
  proof (cases "nodeStore s c")
    case None
    from growsD_None[OF g None] None Some m show ?thesis
      by (simp add: container_modulates_def getNodeWithUUID_def)
  next
    case st: (Some t)
    from growsD_all[OF g st] st Some m show ?thesis
      by (auto simp: container_modulates_def getNodeWithUUID_def)
  qed
qed

lemma getNodesToConnect_grows:
  assumes g: "grows s s'"
    and a: "uuid a' = uuid a" "macroContainerUUID a' = macroContainerUUID a"
      "parameters a' = parameters a" "nativeNode a' = nativeNode a"
    and b: "uuid b' = uuid b" "macroContainerUUID b' = macroContainerUUID b"
      "paramMapping b' = paramMapping b" "nativeNode b' = nativeNode b"
  shows "getNodesToConnect s' a' b' = getNodesToConnect s a b"
proof -
  have cm: "container_modulates s' a' = container_modulates s a"
    by (rule container_modulates_grows[OF g a(2)])
  have im: "isModulator s' a' = isModulator s a"
    by (simp add: isModulator_def cm a cong: if_cong)
  have it: "isModulatorType s' a' = isModulatorType s a"
    by (simp add: isModulatorType_def cm im a cong: if_cong)
  have sb: "areSiblings a' b' = areSiblings a b"
    by (simp add: areSiblings_def a b)
  have fr: "getNodeToConnect a' w = getNodeToConnect a w" for w
    by (simp add: getNodeToConnect_def a)
  have to: "getNodeToConnect b' w = getNodeToConnect b w" for w
    by (simp add: getNodeToConnect_def b)
  have md: "getNodeToConnectToModulator s' b' property = getNodeToConnectToModulator s b property"
    for property
    by (cases "nativeNode b")
      (simp_all add: getNodeToConnectToModulator_def b modulator_members_grows[OF g]
        growsD_dest[OF g])
  show ?thesis
    by (simp add: getNodesToConnect_def im it sb fr to md cong: if_cong)
qed

lemma sink_of_grows: "grows s s' \<Longrightarrow> sink_of s' e = sink_of s e"
  by (simp add: sink_of_def member_hid_grows split: endpoint.splits)

lemma wire_between_grows:
  assumes g: "grows s s'"
  shows "wire_between s' x y = wire_between s x y"
proof (cases "nodeStore s x")
  case None
  from growsD_None[OF g None] None show ?thesis
    by (simp add: wire_between_def)
next
  case (Some a)
  note a = Some
  from growsD_all[OF g a] obtain a' where a': "nodeStore s' x = Some a'" "uuid a' = uuid a"
      "macroContainerUUID a' = macroContainerUUID a" "parameters a' = parameters a"
      "nativeNode a' = nativeNode a"
    by blast
  show ?thesis
  proof (cases "nodeStore s y")
    case None
    from growsD_None[OF g None] None show ?thesis
      by (simp add: wire_between_def split: option.splits)
  next
    case (Some b)
    from growsD_all[OF g Some] obtain b' where b': "nodeStore s' y = Some b'" "uuid b' = uuid b"
        "macroContainerUUID b' = macroContainerUUID b" "paramMapping b' = paramMapping b"
        "nativeNode b' = nativeNode b"
      by blast
    have "getNodesToConnect s' a' b' = getNodesToConnect s a b"
      by (rule getNodesToConnect_grows[OF g a'(2-5) b'(2-5)])
    then have "wire_of s' a' b' = wire_of s a b"
      by (simp add: wire_of_def a'(2) b'(2) member_hid_grows[OF g] sink_of_grows[OF g]
          cong: sum.case_cong prod.case_cong option.case_cong)
    with a a' Some b' show ?thesis
      by (simp add: wire_between_def)
  qed
qed

lemma native_connect_wire:
  "native_connect h e s = Inr s' \<Longrightarrow>
   \<exists>k. sink_of s e = Some k \<and> s' = s\<lparr>connections := connections s @ [(h, k)]\<rparr>"
  by (auto simp: native_connect_def sink_of_def split: endpoint.splits option.splits if_splits)

lemma sink_of_truthy: "sink_of s e = Some k \<Longrightarrow> endpoint_truthy e"
  by (auto simp: sink_of_def endpoint_truthy_def split: endpoint.splits if_splits)

lemma connect_nodes_wire:
  assumes c: "connect_nodes s a b = Inr s'" and ne: "uuid a \<noteq> uuid b"
  shows "s' = s\<lparr>connections := connections s @ wire_of s a b\<rparr>"
proof -
  from c obtain r where r: "getNodesToConnect s a b = Inr r"
    and rest: "(case fst r of
          Some m \<Rightarrow>
            (case member_hid s m of
               Some h \<Rightarrow>
                 (case snd r of
                    Some e \<Rightarrow> (if endpoint_truthy e then native_connect h e s else Inr s)
                  | None \<Rightarrow> Inr s)
             | None \<Rightarrow> Inr s)
        | None \<Rightarrow> Inr s) = Inr s'"
    by (auto simp: connect_nodes_def bind_err_Inr)
  obtain f t where ft: "r = (f, t)" by (cases r)
  have same: "s = s\<lparr>connections := connections s @ []\<rparr>" by simp
  show ?thesis
  proof (cases f)
    case None
    with rest ft r ne same show ?thesis by (simp add: wire_of_def)
  next
    case (Some m)
    note m = Some
    show ?thesis
    proof (cases "member_hid s m")
      case None
      with rest ft r ne same m show ?thesis by (simp add: wire_of_def split: option.splits)
    next
      case (Some h)
      note h = Some
      show ?thesis
      proof (cases t)
        case None
        with rest ft r ne same m h show ?thesis by (simp add: wire_of_def split: option.splits)
      next
        case (Some e)
        show ?thesis
        proof (cases "endpoint_truthy e")
          case True
          with rest ft m h Some have "native_connect h e s = Inr s'" by simp
          from native_connect_wire[OF this] obtain k where "sink_of s e = Some k"
              "s' = s\<lparr>connections := connections s @ [(h, k)]\<rparr>"
            by blast
          with ft r ne m h Some show ?thesis by (simp add: wire_of_def)
        next
          case False
          then have "sink_of s e = None"
            using sink_of_truthy[of s e] by (cases "sink_of s e") auto
          with False rest ft r ne same m h Some show ?thesis by (simp add: wire_of_def)
        qed
      qed
    qed
  qed
qed

lemma wire_of_self: "uuid a = uuid b \<Longrightarrow> wire_of s a b = []"
  by (simp add: wire_of_def)

lemma connect_wire:
  assumes "connect s x n = Inr s'"
  shows "s' = s\<lparr>connections := connections s @ wire_between s x n\<rparr>"
proof -
  from assms obtain t where t: "nodeStore s x = Some t"
    by (auto simp: connect_def split: option.splits)
  show ?thesis
  proof (cases "nodeStore s n")
    case None
    with assms t show ?thesis by (simp add: connect_def wire_between_def)
  next
    case (Some nd)
    show ?thesis
    proof (cases "uuid t = uuid nd")
      case True
      with assms t Some show ?thesis
        by (simp add: connect_def wire_between_def wire_of_self)
    next
      case False
      with assms t Some have "connect_nodes s t nd = Inr s'"
        by (simp add: connect_def)
      from connect_nodes_wire[OF this False] t Some show ?thesis
        by (simp add: wire_between_def)
    qed
  qed
qed

lemma connect_conn:
  "connect s x n = Inr s' \<Longrightarrow> \<exists>c. s' = s\<lparr>connections := connections s @ c\<rparr>"
  using connect_wire by blast

lemma pushNextNode_effect:
  "pushNextNode k s x n = Inr s' \<Longrightarrow> nodeStore s n \<noteq> None \<Longrightarrow>
   \<exists>w t. boundary_owner k s x = Some w \<and> nodeStore s w = Some t \<and>
         s' = s\<lparr>nodeStore := (nodeStore s)(w \<mapsto> t\<lparr>nextNode := nextNode t @ [n]\<rparr>)\<rparr>"
proof (induction k arbitrary: x)
  case 0
  then show ?case by simp
next
  case (Suc k)
  from Suc.prems(2) obtain nd where nd: "nodeStore s n = Some nd" by blast
  from Suc.prems(1) nd obtain t where t: "nodeStore s x = Some t"
    by (auto split: option.splits)
  from Suc.prems(1) nd t obtain r where r: "getNodesToConnect s t nd = Inr r"
    and rest: "(case fst r of
                    None \<Rightarrow> Inl TypeError
                  | Some m \<Rightarrow>
                      (case getNodeWithTag s (member_prop s m ''uuid'') of
                         None \<Rightarrow> Inl TypeError
                       | Some fromNode \<Rightarrow>
                           if uuid fromNode \<noteq> uuid t
                           then pushNextNode k s (uuid fromNode) n
                           else Inr (s\<lparr>nodeStore := (nodeStore s)
                                        (x \<mapsto> t\<lparr>nextNode := nextNode t @ [n]\<rparr>)\<rparr>))) = Inr s'"
    by (auto simp: bind_err_Inr)
  from rest obtain m where m: "fst r = Some m"
    by (auto split: option.splits)
  then have gm: "getNodeToConnect t ''from'' = Some m"
    using getNodesToConnect_from[OF r] by simp
  from rest m obtain f where f: "getNodeWithTag s (member_prop s m ''uuid'') = Some f"
    by (auto split: option.splits)
  show ?case
  proof (cases "uuid f \<noteq> uuid t")
    case True
    with rest m f have "pushNextNode k s (uuid f) n = Inr s'" by simp
    from Suc.IH[OF this Suc.prems(2)] t gm f True show ?thesis by simp
  next
    case False
    with rest m f have "s' = s\<lparr>nodeStore := (nodeStore s)(x \<mapsto> t\<lparr>nextNode := nextNode t @ [n]\<rparr>)\<rparr>"
      by simp
    moreover have "boundary_owner (Suc k) s x = Some x"
      using False t gm f by simp
    ultimately show ?thesis
      using t by blast
  qed
qed

lemma pushNextNode_noop:
  "pushNextNode k s x n = Inr s' \<Longrightarrow> nodeStore s n = None \<Longrightarrow> s' = s"
  by (cases k) (auto split: option.splits)

lemma setPrevNode_effect:
  "setPrevNode s n x = Inr s' \<Longrightarrow>
   \<exists>t. nodeStore s n = Some t \<and>
       s' = s\<lparr>nodeStore := (nodeStore s)(n \<mapsto> t\<lparr>prevNode := Some x\<rparr>)\<rparr>"
  by (auto simp: setPrevNode_def split: option.splits)

lemma edge_step:
  assumes c: "connect s x u = Inr s1" and p: "pushNextNode k s1 x u = Inr s2"
    and sp: "setPrevNode s2 u x = Inr s3"
  shows "\<exists>w t tu. boundary_owner k s x = Some w \<and> nodeStore s w = Some t \<and>
           ((nodeStore s)(w \<mapsto> t\<lparr>nextNode := nextNode t @ [u]\<rparr>)) u = Some tu \<and>
           s3 = s\<lparr>connections := connections s @ wire_between s x u,
                 nodeStore := (nodeStore s)(w \<mapsto> t\<lparr>nextNode := nextNode t @ [u]\<rparr>,
                                            u \<mapsto> tu\<lparr>prevNode := Some x\<rparr>)\<rparr>"
proof -
  have s1: "s1 = s\<lparr>connections := connections s @ wire_between s x u\<rparr>"
    by (rule connect_wire[OF c])
  from setPrevNode_effect[OF sp] obtain tu where tu: "nodeStore s2 u = Some tu"
    and s3: "s3 = s2\<lparr>nodeStore := (nodeStore s2)(u \<mapsto> tu\<lparr>prevNode := Some x\<rparr>)\<rparr>"
    by blast
  have own: "boundary_owner k s1 x = boundary_owner k s x"
    by (rule boundary_owner_grows) (simp add: grows_def s1)
  have "nodeStore s1 u \<noteq> None"
  proof
    assume n: "nodeStore s1 u = None"
    from pushNextNode_noop[OF p n] have "s2 = s1" .
    with n tu show False by simp
  qed
  from pushNextNode_effect[OF p this] obtain w t where
    w: "boundary_owner k s1 x = Some w" "nodeStore s1 w = Some t"
    and s2: "s2 = s1\<lparr>nodeStore := (nodeStore s1)(w \<mapsto> t\<lparr>nextNode := nextNode t @ [u]\<rparr>)\<rparr>"
    by blast
  have a: "boundary_owner k s x = Some w"
    using w own by simp
  have b: "nodeStore s w = Some t"
    using w s1 by simp
  have c': "((nodeStore s)(w \<mapsto> t\<lparr>nextNode := nextNode t @ [u]\<rparr>)) u = Some tu"
    using tu s2 s1 by simp
  have d: "s3 = s\<lparr>connections := connections s @ wire_between s x u,
                 nodeStore := (nodeStore s)(w \<mapsto> t\<lparr>nextNode := nextNode t @ [u]\<rparr>,
                                            u \<mapsto> tu\<lparr>prevNode := Some x\<rparr>)\<rparr>"
    unfolding s3 s2 s1 by simp
  from a b c' d show ?thesis by blast
qed

lemma edge_facts:
  assumes c: "connect s x u = Inr s1" and p: "pushNextNode k s1 x u = Inr s2"
    and sp: "setPrevNode s2 u x = Inr s3"
  shows "\<exists>w. boundary_owner k s x = Some w \<and> grows s s3 \<and>
           connections s3 = connections s @ wire_between s x u \<and>
           (\<exists>nd. nodeStore s3 w = Some nd \<and> u \<in> set (nextNode nd)) \<and>
           (\<exists>nd. nodeStore s3 u = Some nd \<and> prevNode nd = Some x) \<and>
           (\<forall>v. v \<noteq> u \<longrightarrow> v \<noteq> w \<longrightarrow> nodeStore s3 v = nodeStore s v)"
proof -
  from edge_step[OF c p sp] obtain w t tu where
    w: "boundary_owner k s x = Some w" and t: "nodeStore s w = Some t"
    and tu: "((nodeStore s)(w \<mapsto> t\<lparr>nextNode := nextNode t @ [u]\<rparr>)) u = Some tu"
    and s3: "s3 = s\<lparr>connections := connections s @ wire_between s x u,
                 nodeStore := (nodeStore s)(w \<mapsto> t\<lparr>nextNode := nextNode t @ [u]\<rparr>,
                                            u \<mapsto> tu\<lparr>prevNode := Some x\<rparr>)\<rparr>"
    by blast
  have g: "grows s s3"
    unfolding grows_def
  proof (intro allI conjI impI)
    show "destination s3 = destination s"
      by (simp add: s3)
  next
    fix v
    assume "nodeStore s v = None"
    then show "nodeStore s3 v = None"
      using t tu by (auto simp: s3 split: if_splits)
  next
    fix v tv
    assume "nodeStore s v = Some tv"
    then show "\<exists>t'. nodeStore s3 v = Some t' \<and> uuid t' = uuid tv \<and>
        macroContainerUUID t' = macroContainerUUID tv \<and> macroNameSpace t' = macroNameSpace tv \<and>
        parameters t' = parameters tv \<and> paramMapping t' = paramMapping tv \<and>
        nodeType t' = nodeType tv \<and> nativeNode t' = nativeNode tv \<and> isPlaying t' = isPlaying tv \<and>
        set (nextNode tv) \<subseteq> set (nextNode t')"
      using t tu by (auto simp: s3 split: if_splits)
  qed
  have c2: "connections s3 = connections s @ wire_between s x u"
    by (simp add: s3)
  have n: "\<exists>nd. nodeStore s3 w = Some nd \<and> u \<in> set (nextNode nd)"
    using tu by (auto simp: s3 split: if_splits)
  have pr: "\<exists>nd. nodeStore s3 u = Some nd \<and> prevNode nd = Some x"
    by (simp add: s3)
  have oth: "\<forall>v. v \<noteq> u \<longrightarrow> v \<noteq> w \<longrightarrow> nodeStore s3 v = nodeStore s v"
    by (simp add: s3)
  from w g c2 n pr oth show ?thesis by blast
qed

lemma loop_post_nil: "loop_post k u [] s s"
  by (simp add: loop_post_def grows_refl)

lemma loop_post_cons:
  assumes e: "connect s x u = Inr s1" "pushNextNode k s1 x u = Inr s2"
      "setPrevNode s2 u x = Inr s3"
    and r: "loop_post k u ts s3 s'"
  shows "loop_post k u (x # ts) s s'"
proof -
  from edge_facts[OF e] obtain w where
    w: "boundary_owner k s x = Some w" and g: "grows s s3"
    and c: "connections s3 = connections s @ wire_between s x u"
    and n: "\<exists>nd. nodeStore s3 w = Some nd \<and> u \<in> set (nextNode nd)"
    and pr: "\<exists>nd. nodeStore s3 u = Some nd \<and> prevNode nd = Some x"
    and oth: "\<forall>v. v \<noteq> u \<longrightarrow> v \<noteq> w \<longrightarrow> nodeStore s3 v = nodeStore s v"
    by blast
  have own: "boundary_owner k s3 y = boundary_owner k s y" for y
    by (rule boundary_owner_grows[OF g])
  from r have g': "grows s3 s'"
    and c': "connections s' = connections s3 @ concat (map (\<lambda>y. wire_between s3 y u) ts)"
    and nil: "ts = [] \<longrightarrow> s' = s3"
    and ed: "\<forall>y\<in>set ts. \<exists>w nd. boundary_owner k s3 y = Some w \<and> nodeStore s' w = Some nd \<and>
                         u \<in> set (nextNode nd)"
    and lst: "ts \<noteq> [] \<longrightarrow> (\<exists>nd. nodeStore s' u = Some nd \<and> prevNode nd = Some (last ts))"
    and fr: "\<forall>v t. nodeStore s3 v = Some t \<longrightarrow> v \<noteq> u \<longrightarrow>
            (\<forall>x\<in>set ts. boundary_owner k s3 x \<noteq> Some v) \<longrightarrow>
            (\<exists>t'. nodeStore s' v = Some t' \<and> nextNode t' = nextNode t \<and>
                  prevNode t' = prevNode t)"
    unfolding loop_post_def by blast+
  have 1: "grows s s'"
    by (rule grows_trans[OF g g'])
  have 2: "connections s' = connections s @ concat (map (\<lambda>y. wire_between s y u) (x # ts))"
    using c c' by (simp add: wire_between_grows[OF g])
  have 3: "\<forall>y\<in>set (x # ts). \<exists>w nd. boundary_owner k s y = Some w \<and>
      nodeStore s' w = Some nd \<and> u \<in> set (nextNode nd)"
  proof
    fix y
    assume "y \<in> set (x # ts)"
    then consider "y = x" | "y \<in> set ts" by auto
    then show "\<exists>w nd. boundary_owner k s y = Some w \<and> nodeStore s' w = Some nd \<and>
        u \<in> set (nextNode nd)"
    proof cases
      case 1
      from n obtain nd where nd: "nodeStore s3 w = Some nd" "u \<in> set (nextNode nd)"
        by blast
      from growsD_Some[OF g' nd(1)] obtain nd' where "nodeStore s' w = Some nd'"
          "set (nextNode nd) \<subseteq> set (nextNode nd')"
        by blast
      with nd w 1 show ?thesis by blast
    next
      case 2
      with ed own show ?thesis by simp
    qed
  qed
  have 4: "\<exists>nd. nodeStore s' u = Some nd \<and> prevNode nd = Some (last (x # ts))"
  proof (cases "ts = []")
    case True
    with nil pr show ?thesis by simp
  next
    case False
    with lst show ?thesis by simp
  qed
  have 5: "\<forall>v t. nodeStore s v = Some t \<longrightarrow> v \<noteq> u \<longrightarrow>
            (\<forall>y\<in>set (x # ts). boundary_owner k s y \<noteq> Some v) \<longrightarrow>
            (\<exists>t'. nodeStore s' v = Some t' \<and> nextNode t' = nextNode t \<and>
                  prevNode t' = prevNode t)"
  proof (intro allI impI)
    fix v t
    assume v: "nodeStore s v = Some t" "v \<noteq> u"
      and no: "\<forall>y\<in>set (x # ts). boundary_owner k s y \<noteq> Some v"
    from no w have "v \<noteq> w" by auto
    with oth v have "nodeStore s3 v = Some t" by simp
    moreover have "\<forall>y\<in>set ts. boundary_owner k s3 y \<noteq> Some v"
      using no own by simp
    ultimately show "\<exists>t'. nodeStore s' v = Some t' \<and> nextNode t' = nextNode t \<and>
        prevNode t' = prevNode t"
      using fr v(2) by blast
  qed
  show ?thesis
    unfolding loop_post_def using 1 2 3 4 5 by simp
qed

lemma loop_post_grows_source:
  assumes "loop_post k u ts s s'"
  shows "grows s s'"
  using assms by (simp add: loop_post_def)

lemma createNode_loop_post:
  "createNode_loop k u xs s = Inr s' \<Longrightarrow> loop_post k u (resolved s xs) s s'"
proof (induction xs arbitrary: s)
  case Nil
  then show ?case by (simp add: loop_post_nil)
next
  case (Cons x xs)
  show ?case
  proof (cases "case x of Some i \<Rightarrow> getNodeWithUUID s i \<noteq> None | None \<Rightarrow> False")
    case False
    then have "createNode_loop k u (x # xs) s = createNode_loop k u xs s"
      and "resolved s (x # xs) = resolved s xs"
      by (auto split: option.splits)
    with Cons show ?thesis by simp
  next
    case True
    then obtain i where i: "x = Some i" "getNodeWithUUID s i \<noteq> None"
      by (auto split: option.splits)
    with Cons.prems obtain s1 s2 s3 where
      e: "connect s i u = Inr s1" "pushNextNode k s1 i u = Inr s2"
        "setPrevNode s2 u i = Inr s3"
      and l: "createNode_loop k u xs s3 = Inr s'"
      by (auto simp: bind_err_Inr)
    from edge_facts[OF e] have g: "grows s s3" by blast
    have "loop_post k u (resolved s3 xs) s3 s'"
      by (rule Cons.IH[OF l])
    then have "loop_post k u (resolved s xs) s3 s'"
      by (simp add: grows_resolved[OF g])
    from loop_post_cons[OF e this] i show ?thesis by simp
  qed
qed

lemma AudioNode_node:
  "uuid (fst (AudioNode host u ty cp user s)) = u \<and>
   prevNode (fst (AudioNode host u ty cp user s)) = None \<and>
   nextNode (fst (AudioNode host u ty cp user s)) = []"
  by (simp add: AudioNode_def Let_def)

lemma AudioNode_store:
  "nodeStore (snd (AudioNode host u ty cp user s)) = nodeStore s \<and>
   connections (snd (AudioNode host u ty cp user s)) = connections s"
  using AudioNode_state[of host u ty cp user s] by auto

lemma updateMacro_store:
  assumes "updateMacro s n = Inr r"
  shows "uuid (fst r) = uuid n \<and> prevNode (fst r) = prevNode n \<and> nextNode (fst r) = nextNode n \<and>
         (\<forall>v. (nodeStore s v = None \<longrightarrow> nodeStore (snd r) v = None) \<and>
              (\<forall>t. nodeStore s v = Some t \<longrightarrow>
                 (\<exists>t'. nodeStore (snd r) v = Some t' \<and> nextNode t' = nextNode t \<and>
                       prevNode t' = prevNode t)))"
  using assms
  by (auto simp: updateMacro_def Let_def split: option.splits native.splits if_splits)

lemma saveNode_store:
  assumes "saveNode s n = Inr s1"
  shows "(\<exists>n'. nodeStore s1 (uuid n) = Some n' \<and> prevNode n' = prevNode n \<and>
                nextNode n' = nextNode n) \<and>
         (\<forall>v t. v \<noteq> uuid n \<longrightarrow> nodeStore s v = Some t \<longrightarrow>
                 (\<exists>t'. nodeStore s1 v = Some t' \<and> nextNode t' = nextNode t \<and>
                       prevNode t' = prevNode t))"
proof -
  from assms obtain r where r: "updateMacro s n = Inr r"
    and l: "setNodeLookup (setNode (snd r) (fst r)) (fst r) = Inr s1"
    by (auto simp: saveNode_def bind_err_Inr)
  from setNodeLookup_frame[OF l] obtain lk where
    s1: "s1 = (setNode (snd r) (fst r))\<lparr>nodeLookup := lk\<rparr>"
    by blast
  have st: "nodeStore s1 = (nodeStore (snd r))(uuid n \<mapsto> fst r)"
    using updateMacro_store[OF r] by (simp add: s1 setNode_def)
  show ?thesis
    using updateMacro_store[OF r] by (simp add: st)
qed

lemma resolved_map_Some:
  "resolved s (map Some xs) = filter (\<lambda>i. getNodeWithUUID s i \<noteq> None) xs"
  by (induction xs) auto

lemma resolved_items:
  "resolved s (map item_ref xs) =
     filter (\<lambda>i. getNodeWithUUID s i \<noteq> None) (List.map_filter item_ref xs)"
  by (induction xs) (auto simp: List.map_filter_simps split: option.splits)

lemma resolved_nodesToConnect:
  "resolved s (nodesToConnect s) = filter (\<lambda>i. getNodeWithUUID s i \<noteq> None) (default_targets s)"
  by (auto simp: nodesToConnect_def default_targets_def resolved_items split: option.splits)

lemma grows_same_store:
  "nodeStore a = nodeStore b \<Longrightarrow> destination a = destination b \<Longrightarrow> grows b a"
  by (simp add: grows_def)


text \<open>
  A target of the rule does not always get a wire. After \<open>lfo\<close>, whose gain is then the
  previous node, a gain is created: the connection is resolved as a modulation of
  \<open>frequency\<close>, the gain has no such parameter, and no wire is made; the new node is
  recorded as next node all the same.
\<close>

theorem createNode_without_wire:
  "map_sum id connections
     (createNode host_example 3 ''u3'' ''gain'' gain_params no_settings lfo_done_example) =
     Inr (connections lfo_done_example) \<and>
   map_sum id previousNode
     (createNode host_example 3 ''u3'' ''gain'' gain_params no_settings lfo_done_example) =
     Inr (Some ''u3'') \<and>
   default_targets lfo_done_example = [''u2'']"
  by (simp add: model_defs example_defs modulation_defs numeral_3_eq_3 default_targets_def)

text \<open>
  Claim C2. When the creation of a node that is not a macro returns, the connection rule
  has run for the targets that are in the store: every selected node when the selection
  is not empty, else the single previous node when there is one, else nothing. For every
  target the new node stands in the next-list of the wrapper the connection starts from;
  the previous-node link of the new node is the last target, and is unset when there is
  no target; the wires made are, target by target and in this order, the wire from the
  target to the new node where both sides of the connection resolve, and nothing else, so
  with no target no wire is made; and the next- and previous-links of every other wrapper
  that no connection starts from are unchanged.
\<close>

theorem createNode_default_connection:
  assumes cr: "createNode host fuel u ty cp user s = Inr s'"
    and nm: "truthy_str (cp_method cp)"
  shows "(\<forall>x\<in>set (filter (\<lambda>i. getNodeWithUUID s' i \<noteq> None) (default_targets s)).
            \<exists>w nd. boundary_owner fuel s' x = Some w \<and> nodeStore s' w = Some nd \<and>
                   u \<in> set (nextNode nd)) \<and>
         (\<exists>nd. nodeStore s' u = Some nd \<and>
               prevNode nd =
                 (if filter (\<lambda>i. getNodeWithUUID s' i \<noteq> None) (default_targets s) = [] then None
                  else Some (last (filter (\<lambda>i. getNodeWithUUID s' i \<noteq> None)
                                     (default_targets s))))) \<and>
         connections s' =
           connections s @
           concat (map (\<lambda>x. wire_between s' x u)
                     (filter (\<lambda>i. getNodeWithUUID s' i \<noteq> None) (default_targets s))) \<and>
         (\<forall>v t. nodeStore s v = Some t \<longrightarrow> v \<noteq> u \<longrightarrow>
            (\<forall>x\<in>set (filter (\<lambda>i. getNodeWithUUID s' i \<noteq> None) (default_targets s)).
               boundary_owner fuel s' x \<noteq> Some v) \<longrightarrow>
            (\<exists>t'. nodeStore s' v = Some t' \<and> nextNode t' = nextNode t \<and>
                  prevNode t' = prevNode t))"
proof -
  let ?r = "AudioNode host u ty cp user s"
  let ?ts = "filter (\<lambda>i. getNodeWithUUID s' i \<noteq> None) (default_targets s)"
  from cr nm obtain s1 s2 where s1: "saveNode (snd ?r) (fst ?r) = Inr s1"
    and lp: "createNode_loop fuel u (nodesToConnect s1) s1 = Inr s2"
    and s': "s' = setPreviousNode (Some u) (resetSelection s2)"
    unfolding createNode_Inr by auto
  have st': "nodeStore s' = nodeStore s2" "connections s' = connections s2"
    "destination s' = destination s2"
    by (simp_all add: s' setPreviousNode_def resetSelection_def)
  have post: "loop_post fuel u (resolved s1 (nodesToConnect s1)) s1 s2"
    by (rule createNode_loop_post[OF lp])
  then have g12: "grows s1 s2"
    by (rule loop_post_grows_source)
  have g2': "grows s2 s'"
    by (rule grows_same_store) (simp_all add: st')
  have g1': "grows s1 s'"
    by (rule grows_trans[OF g12 g2'])
  have sel: "default_targets s1 = default_targets s"
    using saveNode_frame[OF s1] AudioNode_selection[of host u ty cp user s]
    by (simp add: default_targets_def)
  have ts: "resolved s1 (nodesToConnect s1) = ?ts"
    using grows_resolves[OF g1'] by (simp add: resolved_nodesToConnect sel)
  have own: "boundary_owner fuel s1 x = boundary_owner fuel s' x" for x
    by (rule boundary_owner_grows[OF g1', symmetric])
  have wr: "wire_between s1 x y = wire_between s' x y" for x y
    by (rule wire_between_grows[OF g1', symmetric])
  from post have
    c: "connections s2 = connections s1 @ concat (map (\<lambda>x. wire_between s1 x u) ?ts)"
    and nil: "?ts = [] \<longrightarrow> s2 = s1"
    and ed: "\<forall>x\<in>set ?ts. \<exists>w nd. boundary_owner fuel s1 x = Some w \<and>
        nodeStore s2 w = Some nd \<and> u \<in> set (nextNode nd)"
    and lst: "?ts \<noteq> [] \<longrightarrow> (\<exists>nd. nodeStore s2 u = Some nd \<and> prevNode nd = Some (last ?ts))"
    and fr: "\<forall>v t. nodeStore s1 v = Some t \<longrightarrow> v \<noteq> u \<longrightarrow>
            (\<forall>x\<in>set ?ts. boundary_owner fuel s1 x \<noteq> Some v) \<longrightarrow>
            (\<exists>t'. nodeStore s2 v = Some t' \<and> nextNode t' = nextNode t \<and>
                  prevNode t' = prevNode t)"
    unfolding loop_post_def ts by blast+
  have conn1: "connections s1 = connections s"
    using saveNode_frame[OF s1] AudioNode_store[of host u ty cp user s] by simp
  from saveNode_store[OF s1] AudioNode_node[of host u ty cp user s] AudioNode_store[of host u ty cp user s]
  have new: "\<exists>n'. nodeStore s1 u = Some n' \<and> prevNode n' = None"
    and old: "\<forall>v t. v \<noteq> u \<longrightarrow> nodeStore s v = Some t \<longrightarrow>
                 (\<exists>t'. nodeStore s1 v = Some t' \<and> nextNode t' = nextNode t \<and>
                       prevNode t' = prevNode t)"
    by auto
  have 1: "\<forall>x\<in>set ?ts. \<exists>w nd. boundary_owner fuel s' x = Some w \<and> nodeStore s' w = Some nd \<and>
      u \<in> set (nextNode nd)"
    using ed by (simp add: own st')
  have 2: "\<exists>nd. nodeStore s' u = Some nd \<and>
      prevNode nd = (if ?ts = [] then None else Some (last ?ts))"
  proof (cases "?ts = []")
    case True
    with nil new show ?thesis by (simp add: st')
  next
    case False
    with lst show ?thesis by (simp add: st')
  qed
  have 3: "connections s' = connections s @ concat (map (\<lambda>x. wire_between s' x u) ?ts)"
    using c conn1 by (simp add: st' wr)
  have 4: "\<forall>v t. nodeStore s v = Some t \<longrightarrow> v \<noteq> u \<longrightarrow>
      (\<forall>x\<in>set ?ts. boundary_owner fuel s' x \<noteq> Some v) \<longrightarrow>
      (\<exists>t'. nodeStore s' v = Some t' \<and> nextNode t' = nextNode t \<and> prevNode t' = prevNode t)"
  proof (intro allI impI)
    fix v t
    assume v: "nodeStore s v = Some t" "v \<noteq> u"
      and no: "\<forall>x\<in>set ?ts. boundary_owner fuel s' x \<noteq> Some v"
    from old v obtain t1 where t1: "nodeStore s1 v = Some t1" "nextNode t1 = nextNode t"
        "prevNode t1 = prevNode t"
      by blast
    from no have "\<forall>x\<in>set ?ts. boundary_owner fuel s1 x \<noteq> Some v"
      by (simp add: own)
    with fr t1(1) v(2) obtain t2 where "nodeStore s2 v = Some t2" "nextNode t2 = nextNode t1"
        "prevNode t2 = prevNode t1"
      by blast
    with t1 show "\<exists>t'. nodeStore s' v = Some t' \<and> nextNode t' = nextNode t \<and>
        prevNode t' = prevNode t"
      by (simp add: st')
  qed
  from 1 2 3 4 show ?thesis by blast
qed

theorem createNode_default_connection_witness:
  "\<exists>s'. createNode host_example 3 ''u3'' ''gain'' gain_params no_settings chain_example = Inr s' \<and>
      (\<exists>nd. nodeStore s' ''u3'' = Some nd \<and> prevNode nd = Some ''u2'') \<and>
      (\<exists>w nd. boundary_owner 3 s' ''u1'' = Some w \<and> nodeStore s' w = Some nd \<and>
              ''u3'' \<in> set (nextNode nd)) \<and>
      (\<exists>w nd. boundary_owner 3 s' ''u2'' = Some w \<and> nodeStore s' w = Some nd \<and>
              ''u3'' \<in> set (nextNode nd)) \<and>
      connections s' = [(0, SinkNode 1), (0, SinkNode 2), (1, SinkNode 2)]"
proof -
  obtain s' where s': "createNode host_example 3 ''u3'' ''gain'' gain_params no_settings chain_example = Inr s'"
    and r: "getNodeWithUUID s' ''u1'' \<noteq> None" "getNodeWithUUID s' ''u2'' \<noteq> None"
    and w: "wire_between s' ''u1'' ''u3'' = [(0, SinkNode 2)]"
      "wire_between s' ''u2'' ''u3'' = [(1, SinkNode 2)]"
    by (simp add: model_defs example_defs numeral_3_eq_3 wire_between_def wire_of_def
          sink_of_def)
  have nm: "truthy_str (cp_method gain_params)"
    by (simp add: truthy_str_def gain_params_def)
  have ts: "filter (\<lambda>i. getNodeWithUUID s' i \<noteq> None) (default_targets chain_example) = [''u1'', ''u2'']"
    using r by (simp add: default_targets_def chain_example_def List.map_filter_simps item_ref_def)
  have c0: "connections chain_example = [(0, SinkNode 1)]"
    by (simp add: chain_example_def)
  show ?thesis
    using createNode_default_connection[OF s' nm] s' unfolding ts by (auto simp: w c0)
qed

section \<open>Routing of a modulator\<close>



lemma replace_value_plain: "CHR ''.'' \<notin> set seg \<Longrightarrow> replace_value seg = seg"
  by (induction seg) auto

lemma replace_value_suffix:
  "CHR ''.'' \<notin> set seg \<Longrightarrow> replace_value (seg @ ''.value'') = seg"
  by (induction seg) auto




section \<open>Restart of a primitive\<close>










section \<open>Namespaces in the lookup index\<close>











lemma macro_types_single:
  "nodeStore s m = Some t \<Longrightarrow> macro_types s [m] = Inr (nodeType t @ '' '')"
  by simp













section \<open>Properties of the sequencer\<close>

lemma foldl_push_filter:
  "foldl (\<lambda>tmp el. if P el then tmp @ [el] else tmp) acc xs = acc @ filter P xs"
  by (induction xs arbitrary: acc) auto


text \<open>
  Claim C8. \<open>unbind("step")\<close> keeps, in their order, exactly the listener bindings whose
  recorded selector text differs from the active selector text, removes every binding
  whose recorded selector text equals it, and changes nothing else.
\<close>

theorem unbind_step_exact:
  "cracked_unbind ''step'' cur s =
     s\<lparr>loopListeners := filter (\<lambda>el. l_selector el \<noteq> cur) (loopListeners s)\<rparr>"
  using foldl_push_filter[of "\<lambda>el. cur \<noteq> l_selector el" "[]" "loopListeners s"]
  by (simp add: cracked_unbind_def eq_commute)

theorem unbind_step_exact_witness:
  "map l_selector (loopListeners listeners_example) = [''sine'', ''.bar''] \<and>
   map l_selector (loopListeners (cracked_unbind ''step'' ''.bar'' listeners_example)) =
     [''sine'']"
  using unbind_step_exact[of "''.bar''" listeners_example]
  by (simp add: listeners_example_def cracked_bind_def loop_example_def)

end
